theory Spec2Isabelle
  imports Main
begin

section \<open>RDF terms and graphs\<close>

text \<open>
  The module \<^verbatim>\<open>shapes-graph.js\<close> reads two things of a term: its \<^verbatim>\<open>termType\<close> and its
  \<^verbatim>\<open>value\<close>. Terms are compared as the RDF/JS data model compares them (kind and value,
  and for a literal its language and datatype). Every term object is truthy, so a test
  such as \<^verbatim>\<open>if (value)\<close> only asks whether a term is present.
\<close>

datatype rdfterm =
    NamedNode string
  | BlankNode string
  | Literal string string string
  | Variable string
  | DefaultGraph
  | Collection string

fun termType :: "rdfterm \<Rightarrow> string" where
  "termType (NamedNode v) = ''NamedNode''"
| "termType (BlankNode v) = ''BlankNode''"
| "termType (Literal v l d) = ''Literal''"
| "termType (Variable v) = ''Variable''"
| "termType DefaultGraph = ''DefaultGraph''"
| "termType (Collection v) = ''Collection''"

fun tvalue :: "rdfterm \<Rightarrow> string" where
  "tvalue (NamedNode v) = v"
| "tvalue (BlankNode v) = v"
| "tvalue (Literal v l d) = v"
| "tvalue (Variable v) = v"
| "tvalue DefaultGraph = []"
| "tvalue (Collection v) = v"

text \<open>The vocabulary terms the module names (\<^verbatim>\<open>sh:path\<close>, \<^verbatim>\<open>rdfs.Class\<close>, ...).\<close>

definition sh :: "string \<Rightarrow> rdfterm" where
  "sh local = NamedNode (''http://www.w3.org/ns/shacl#'' @ local)"

definition rdf :: "string \<Rightarrow> rdfterm" where
  "rdf local = NamedNode (''http://www.w3.org/1999/02/22-rdf-syntax-ns#'' @ local)"


definition true_literal :: rdfterm where
  "true_literal = Literal ''true'' [] ''http://www.w3.org/2001/XMLSchema#boolean''"

type_synonym triple = "rdfterm \<times> rdfterm \<times> rdfterm"

text \<open>
  A graph is the sequence of its triples, in the order in which a query enumerates them.
\<close>

type_synonym graph = "triple list"

fun subject :: "triple \<Rightarrow> rdfterm" where
  "subject (s, p, ob) = s"

fun predicate :: "triple \<Rightarrow> rdfterm" where
  "predicate (s, p, ob) = p"

fun object :: "triple \<Rightarrow> rdfterm" where
  "object (s, p, ob) = ob"

text \<open>
  Modelled from the spec: the graph query layer (\<^verbatim>\<open>query().match(s, p, o)\<close> and the
  readers of its solutions) is not among the sources. The spec gives it as a pattern
  match in which any position may be a wildcard or a variable, returning all matching
  bindings, with a "has any solution" form, a "single bound term" form and an "all bound
  terms as a list" form. A position is \<open>None\<close> when it is a wildcard or a variable.
\<close>

fun fits :: "rdfterm option \<Rightarrow> rdfterm \<Rightarrow> bool" where
  "fits None t = True"
| "fits (Some x) t = (x = t)"

definition match :: "graph \<Rightarrow> rdfterm option \<Rightarrow> rdfterm option \<Rightarrow> rdfterm option \<Rightarrow> triple list" where
  "match g s p ob = filter (\<lambda>t. fits s (subject t) \<and> fits p (predicate t) \<and> fits ob (object t)) g"

definition hasSolution :: "triple list \<Rightarrow> bool" where
  "hasSolution sols = (sols \<noteq> [])"

definition getNode :: "(triple \<Rightarrow> rdfterm) \<Rightarrow> triple list \<Rightarrow> rdfterm option" where
  "getNode var sols = (case sols of [] \<Rightarrow> None | sol # rest \<Rightarrow> Some (var sol))"

definition getNodeArray :: "(triple \<Rightarrow> rdfterm) \<Rightarrow> triple list \<Rightarrow> rdfterm list" where
  "getNodeArray var sols = map var sols"

text \<open>
  Modelled from the spec: \<^verbatim>\<open>NodeSet\<close> is not among the sources. The spec gives it as a
  deduplicating collection of terms with union, membership test and conversion to an
  ordered sequence; the model keeps the terms in the order of their first insertion.
\<close>

type_synonym NodeSet = "rdfterm list"

definition NodeSet_has :: "NodeSet \<Rightarrow> rdfterm \<Rightarrow> bool" where
  "NodeSet_has ns t = (t \<in> set ns)"

definition NodeSet_add :: "NodeSet \<Rightarrow> rdfterm \<Rightarrow> NodeSet" where
  "NodeSet_add ns t = (if NodeSet_has ns t then ns else ns @ [t])"

definition NodeSet_addAll :: "NodeSet \<Rightarrow> rdfterm list \<Rightarrow> NodeSet" where
  "NodeSet_addAll ns ts = foldl NodeSet_add ns ts"

section \<open>Path expressions\<close>

text \<open>
  What \<^verbatim>\<open>toRDFQueryPath\<close> returns: the predicate itself, an array of paths (a sequence),
  or an object with one of the keys \<^verbatim>\<open>or\<close>, \<^verbatim>\<open>zeroOrMore\<close>, \<^verbatim>\<open>oneOrMore\<close>,
  \<^verbatim>\<open>zeroOrOne\<close>, \<^verbatim>\<open>inverse\<close>.
\<close>

datatype rdfpath =
    Pred rdfterm
  | Seq "rdfpath list"
  | Or "rdfpath list"
  | ZeroOrMore rdfpath
  | OneOrMore rdfpath
  | ZeroOrOne rdfpath
  | Inverse rdfpath

datatype error =
    UnsupportedPath rdfterm
  | TypeError string
  | LocalNameError string
  | QueryError string

section \<open>Plain objects as dictionaries\<close>

text \<open>
  The module keeps three dictionaries in plain objects created as \<^verbatim>\<open>{}\<close>: \<^verbatim>\<open>optionals\<close>,
  \<^verbatim>\<open>parametersMap\<close> and \<^verbatim>\<open>shapes\<close>. It reads them with \<^verbatim>\<open>obj[key]\<close> and tests the
  result for truthiness. Such a read follows the prototype chain, so under a key that the
  object does not hold itself it yields what \<^verbatim>\<open>Object.prototype\<close> holds under that key,
  when it holds anything: a function or an object, which is truthy. These are the keys of
  \<^verbatim>\<open>Object.prototype\<close>. (A fourth plain object, \<^verbatim>\<open>parameterValues\<close> of a constraint,
  is only written by the constructors; it is kept as the sequence of its assignments.)
\<close>

definition objectPrototypeKeys :: "string list" where
  "objectPrototypeKeys =
     [''constructor'', ''__defineGetter__'', ''__defineSetter__'', ''hasOwnProperty'',
      ''__lookupGetter__'', ''__lookupSetter__'', ''isPrototypeOf'', ''propertyIsEnumerable'',
      ''toString'', ''valueOf'', ''__proto__'', ''toLocaleString'']"

text \<open>
  What such a read yields, as far as the module tells values apart: nothing (a falsy
  value), a truthy value that the object inherits under the key, or the value that the
  module stored under the key.
\<close>

datatype 'a jsvalue = Undefined | Inherited string | Own 'a

section \<open>The context\<close>

text \<open>
  The context carries the shapes graph (\<^verbatim>\<open>context.$shapes\<close>). The collaborators of the
  module that are not among the sources and of which the spec gives only the interface
  are parameters, carried with the context: the type-instance lookups of
  \<^verbatim>\<open>RDFQueryUtil\<close>, its decoding of an RDF list (which may fail, \<open>Inl\<close>, or not
  return, \<open>None\<close>), \<^verbatim>\<open>RDFQuery.getLocalName\<close> (which may fail), the path traversal of the
  query layer (\<^verbatim>\<open>query().path(focusNode, path, '?object').getNodeArray('?object')\<close>), and
  whether the component of a node holds a truthy value in one of its four validator
  fields, which the validator registry decides.
\<close>

record Context =
  dshapes :: graph
  isInstanceOf :: "graph \<Rightarrow> rdfterm \<Rightarrow> rdfterm \<Rightarrow> bool"
  getInstancesOf :: "graph \<Rightarrow> rdfterm \<Rightarrow> NodeSet"
  rdfListToArray :: "graph \<Rightarrow> rdfterm \<Rightarrow> (error + rdfterm list) option"
  getLocalName :: "string \<Rightarrow> error + string"
  queryPath :: "graph \<Rightarrow> rdfterm \<Rightarrow> rdfpath \<Rightarrow> rdfterm list"
  validatorField :: "rdfterm \<Rightarrow> string \<Rightarrow> bool"

section \<open>Objects of the shapes graph\<close>

text \<open>
  Of \<^verbatim>\<open>optionals\<close> the record keeps the keys that the object holds itself, each with the
  value \<^verbatim>\<open>true\<close>. The validator slots of a constraint component come from a registry
  outside the module and are left out of the record.
\<close>

record ConstraintComponent =
  node :: rdfterm
  parameters :: "rdfterm list"
  parameterNodes :: "rdfterm list"
  requiredParameters :: "rdfterm list"
  optionals :: "string list"

text \<open>
  A constraint refers to the shape that owns it; here \<open>shape\<close> is the node of that shape.
  \<open>parameterValues\<close> is the sequence of the assignments
  \<^verbatim>\<open>parameterValues[localName] = value\<close> that the constructor makes, in their order.
\<close>

record Constraint =
  shape :: rdfterm
  component :: ConstraintComponent
  paramValue :: "rdfterm option"
  parameterValues :: "(string \<times> rdfterm) list"

record Shape =
  severity :: rdfterm
  deactivated :: bool
  path :: "rdfterm option"
  shapeNode :: rdfterm
  constraints :: "Constraint list"

text \<open>
  Shape objects have an identity: \<open>heap\<close> holds every Shape this ShapesGraph has
  constructed, and a Shape is referred to by its position there. \<open>parametersMap\<close> and
  \<open>shapes\<close> hold the keys that the two objects hold themselves; \<open>parametersProto\<close> is the
  component that an assignment under the key \<^verbatim>\<open>__proto__\<close> has made the prototype of
  \<^verbatim>\<open>parametersMap\<close>, if there was one. The two lazily computed lists are \<open>None\<close> until
  first asked for (an array, even an empty one, is truthy).
\<close>

record ShapesGraph =
  ctx :: Context
  components :: "ConstraintComponent list"
  parametersMap :: "string \<rightharpoonup> ConstraintComponent"
  parametersProto :: "ConstraintComponent option"
  shapes :: "string \<rightharpoonup> nat"
  heap :: "Shape list"
  shapeNodesWithConstraints :: "rdfterm list option"
  targetShapes :: "nat jsvalue list option"

section \<open>ConstraintComponent\<close>

text \<open>
  The constructor's query joins \<^verbatim>\<open>(node, sh:parameter, ?parameter)\<close> with
  \<^verbatim>\<open>(?parameter, sh:path, ?path)\<close>; each solution is a pair (parameter, path).
\<close>

definition parameterSolutions :: "graph \<Rightarrow> rdfterm \<Rightarrow> (rdfterm \<times> rdfterm) list" where
  "parameterSolutions g n =
     concat (map (\<lambda>t. map (\<lambda>u. (object t, object u))
                          (match g (Some (object t)) (Some (sh ''path'')) None))
                 (match g (Some n) (Some (sh ''parameter'')) None))"

definition markedOptional :: "graph \<Rightarrow> rdfterm \<Rightarrow> bool" where
  "markedOptional g parameter =
     hasSolution (match g (Some parameter) (Some (sh ''optional'')) (Some true_literal))"

text \<open>
  \<^verbatim>\<open>optionals[sol.path.value] = true\<close>: the assignment of a primitive value under the key
  \<^verbatim>\<open>__proto__\<close> goes to the setter of \<^verbatim>\<open>Object.prototype\<close>, which ignores it; under any
  other key the object holds the value itself afterwards.
\<close>

definition addParameter :: "graph \<Rightarrow> ConstraintComponent \<Rightarrow> rdfterm \<times> rdfterm \<Rightarrow> ConstraintComponent" where
  "addParameter g c sol =
     (let c1 = c\<lparr>parameters := parameters c @ [snd sol],
                 parameterNodes := parameterNodes c @ [fst sol]\<rparr>
      in if markedOptional g (fst sol)
         then (if tvalue (snd sol) = ''__proto__'' then c1
               else c1\<lparr>optionals := List.insert (tvalue (snd sol)) (optionals c1)\<rparr>)
         else c1\<lparr>requiredParameters := requiredParameters c1 @ [snd sol]\<rparr>)"

definition new_ConstraintComponent :: "Context \<Rightarrow> rdfterm \<Rightarrow> ConstraintComponent" where
  "new_ConstraintComponent cx n =
     foldl (addParameter (dshapes cx))
       \<lparr>node = n, parameters = [], parameterNodes = [], requiredParameters = [],
        optionals = []\<rparr>
       (parameterSolutions (dshapes cx) n)"

definition getParameters :: "ConstraintComponent \<Rightarrow> rdfterm list" where
  "getParameters c = parameters c"

text \<open>
  \<^verbatim>\<open>this.optionals[parameterURI]\<close>, read as a condition: \<^verbatim>\<open>true\<close> under a key the object
  holds, the inherited function or object under a key of \<^verbatim>\<open>Object.prototype\<close>, and
  \<^verbatim>\<open>undefined\<close> otherwise.
\<close>

definition isOptional :: "ConstraintComponent \<Rightarrow> string \<Rightarrow> bool" where
  "isOptional c parameterURI =
     (parameterURI \<in> set (optionals c) \<or> parameterURI \<in> set objectPrototypeKeys)"

text \<open>
  The loop of \<^verbatim>\<open>isComplete\<close> over the index \<open>i\<close>, written as the loop it is: \<open>None\<close> is the
  loop that does not end.
\<close>

partial_function (option) isComplete_loop ::
  "Context \<Rightarrow> ConstraintComponent \<Rightarrow> rdfterm \<Rightarrow> nat \<Rightarrow> bool option" where
  "isComplete_loop cx c n i =
     (if i < length (parameters c)
      then (if \<not> isOptional c (tvalue (parameters c ! i))
            then (if \<not> hasSolution (match (dshapes cx) (Some n) (Some (parameters c ! i)) None)
                  then Some False
                  else isComplete_loop cx c n (Suc i))
            else isComplete_loop cx c n (Suc i))
      else Some True)"

declare isComplete_loop.simps [code]

definition isComplete :: "Context \<Rightarrow> ConstraintComponent \<Rightarrow> rdfterm \<Rightarrow> bool option" where
  "isComplete cx c n = isComplete_loop cx c n 0"

section \<open>Constraint\<close>

text \<open>
  \<^verbatim>\<open>paramValue || rdfShapesGraph.query().match(shape.shapeNode, param, '?value').getNode('?value')\<close>:
  the explicit value when one was passed, else the first value found on the shape node.
\<close>

definition valueFor :: "Context \<Rightarrow> rdfterm \<Rightarrow> rdfterm option \<Rightarrow> rdfterm \<Rightarrow> rdfterm option" where
  "valueFor cx n pv param =
     (case pv of
        Some v \<Rightarrow> Some v
      | None \<Rightarrow> getNode object (match (dshapes cx) (Some n) (Some param) None))"

text \<open>
  The loop of the constructor over the index \<open>i\<close>, with the assignments made so far. A
  failure of \<^verbatim>\<open>getLocalName\<close> ends it with that error.
\<close>

partial_function (option) bindParameters ::
  "Context \<Rightarrow> rdfterm \<Rightarrow> rdfterm list \<Rightarrow> rdfterm option \<Rightarrow> nat \<Rightarrow> (string \<times> rdfterm) list \<Rightarrow>
   (error + (string \<times> rdfterm) list) option" where
  "bindParameters cx n params pv i vals =
     (if i < length params
      then (case valueFor cx n pv (params ! i) of
              None \<Rightarrow> bindParameters cx n params pv (Suc i) vals
            | Some v \<Rightarrow>
                (case getLocalName cx (tvalue (params ! i)) of
                   Inl e \<Rightarrow> Some (Inl e)
                 | Inr localName \<Rightarrow>
                     bindParameters cx n params pv (Suc i) (vals @ [(localName, v)])))
      else Some (Inr vals))"

declare bindParameters.simps [code]

definition new_Constraint ::
  "Context \<Rightarrow> rdfterm \<Rightarrow> ConstraintComponent \<Rightarrow> rdfterm option \<Rightarrow> (error + Constraint) option" where
  "new_Constraint cx n c pv =
     (case bindParameters cx n (getParameters c) pv 0 [] of
        None \<Rightarrow> None
      | Some (Inl e) \<Rightarrow> Some (Inl e)
      | Some (Inr vals) \<Rightarrow>
          Some (Inr \<lparr>shape = n, component = c, paramValue = pv, parameterValues = vals\<rparr>))"

section \<open>ShapesGraph: the parameter index\<close>

text \<open>
  \<^verbatim>\<open>this.parametersMap[parameters[j].value] = component\<close>: under the key \<^verbatim>\<open>__proto__\<close>
  the assignment of an object makes that object the prototype of \<^verbatim>\<open>parametersMap\<close>;
  under any other key the object holds the component itself afterwards.
\<close>

definition assignParameter ::
  "ConstraintComponent \<Rightarrow> (string \<rightharpoonup> ConstraintComponent) \<times> ConstraintComponent option \<Rightarrow> rdfterm \<Rightarrow>
   (string \<rightharpoonup> ConstraintComponent) \<times> ConstraintComponent option" where
  "assignParameter c m p =
     (if tvalue p = ''__proto__'' then (fst m, Some c) else ((fst m)(tvalue p \<mapsto> c), snd m))"

definition registerParameters ::
  "(string \<rightharpoonup> ConstraintComponent) \<times> ConstraintComponent option \<Rightarrow> ConstraintComponent \<Rightarrow>
   (string \<rightharpoonup> ConstraintComponent) \<times> ConstraintComponent option" where
  "registerParameters m c = foldl (assignParameter c) m (getParameters c)"

definition new_ShapesGraph :: "Context \<Rightarrow> ShapesGraph" where
  "new_ShapesGraph cx =
     (let cs = map (new_ConstraintComponent cx)
                   (getInstancesOf cx (dshapes cx) (sh ''ConstraintComponent''));
          m = foldl registerParameters (Map.empty, None) cs
      in \<lparr>ctx = cx, components = cs,
          parametersMap = fst m, parametersProto = snd m,
          shapes = Map.empty, heap = [],
          shapeNodesWithConstraints = None, targetShapes = None\<rparr>)"

text \<open>
  The properties that a read reaches through a component that has become the prototype of
  \<^verbatim>\<open>parametersMap\<close>: the fields and methods of the component, all truthy, and its four
  validator fields, truthy or not as the registry has it.
\<close>

definition componentMembers :: "string list" where
  "componentMembers =
     [''context'', ''node'', ''optionals'', ''parameters'', ''parameterNodes'',
      ''requiredParameters'', ''findValidationFunction'', ''getMessages'', ''findValidator'',
      ''getParameters'', ''isComplete'', ''isOptional'']"

definition validatorFields :: "string list" where
  "validatorFields =
     [''nodeValidationFunction'', ''nodeValidationFunctionGeneric'',
      ''propertyValidationFunction'', ''propertyValidationFunctionGeneric'']"

text \<open>
  \<^verbatim>\<open>this.parametersMap[parameter.value]\<close>: the component stored under the key; else, under
  \<^verbatim>\<open>__proto__\<close>, the prototype of the object; else what the prototype chain holds under
  the key.
\<close>

definition getComponentWithParameter :: "ShapesGraph \<Rightarrow> rdfterm \<Rightarrow> ConstraintComponent jsvalue" where
  "getComponentWithParameter sg parameter =
     (let k = tvalue parameter in
      if k = ''__proto__''
      then (case parametersProto sg of Some c \<Rightarrow> Own c | None \<Rightarrow> Inherited k)
      else case parametersMap sg k of
        Some c \<Rightarrow> Own c
      | None \<Rightarrow>
          (case parametersProto sg of
             None \<Rightarrow> if k \<in> set objectPrototypeKeys then Inherited k else Undefined
           | Some c \<Rightarrow>
               if k \<in> set componentMembers \<or> k \<in> set objectPrototypeKeys \<or>
                  (k \<in> set validatorFields \<and> validatorField (ctx sg) (node c) k)
               then Inherited k else Undefined))"

section \<open>Shape\<close>

text \<open>
  The loop of the constructor over the outgoing triples of the shape node (a
  \<^verbatim>\<open>forEach\<close> of the query layer), with the constraints pushed so far and the set of
  handled component nodes. When the read of the index yields an inherited value, which is
  truthy and no component (it has no \<^verbatim>\<open>node\<close> and no \<^verbatim>\<open>getParameters\<close>), the
  callback raises a TypeError, at the latest at the call \<^verbatim>\<open>component.getParameters()\<close>.
  The ShapesGraph that the callback reaches through \<^verbatim>\<open>context.shapesGraph\<close> is the
  one that constructs the Shape.
\<close>

fun collectConstraints ::
  "ShapesGraph \<Rightarrow> rdfterm \<Rightarrow> triple list \<Rightarrow> Constraint list \<Rightarrow> NodeSet \<Rightarrow>
   (error + Constraint list) option" where
  "collectConstraints sg n [] ks handled = Some (Inr ks)"
| "collectConstraints sg n (sol # sols) ks handled =
     (case getComponentWithParameter sg (predicate sol) of
        Undefined \<Rightarrow> collectConstraints sg n sols ks handled
      | Inherited k \<Rightarrow> Some (Inl (TypeError k))
      | Own c \<Rightarrow>
          if NodeSet_has handled (node c) then collectConstraints sg n sols ks handled
          else if length (getParameters c) = 1
          then (case new_Constraint (ctx sg) n c (Some (object sol)) of
                  None \<Rightarrow> None
                | Some (Inl e) \<Rightarrow> Some (Inl e)
                | Some (Inr k) \<Rightarrow> collectConstraints sg n sols (ks @ [k]) handled)
          else (case isComplete (ctx sg) c n of
                  None \<Rightarrow> None
                | Some False \<Rightarrow> collectConstraints sg n sols ks handled
                | Some True \<Rightarrow>
                    (case new_Constraint (ctx sg) n c None of
                       None \<Rightarrow> None
                     | Some (Inl e) \<Rightarrow> Some (Inl e)
                     | Some (Inr k) \<Rightarrow>
                         collectConstraints sg n sols (ks @ [k]) (NodeSet_add handled (node c)))))"

definition new_Shape :: "ShapesGraph \<Rightarrow> rdfterm \<Rightarrow> (error + Shape) option" where
  "new_Shape sg n =
     (let g = dshapes (ctx sg) in
      case collectConstraints sg n (match g (Some n) None None) [] [] of
        None \<Rightarrow> None
      | Some (Inl e) \<Rightarrow> Some (Inl e)
      | Some (Inr ks) \<Rightarrow>
          Some (Inr
            \<lparr>severity = (case getNode object (match g (Some n) (Some (sh ''severity'')) None) of
                           Some s \<Rightarrow> s
                         | None \<Rightarrow> sh ''Violation''),
             deactivated =
               hasSolution (match g (Some n) (Some (sh ''deactivated'')) (Some true_literal)),
             path = getNode object (match g (Some n) (Some (sh ''path'')) None),
             shapeNode = n,
             constraints = ks\<rparr>))"

definition getConstraints :: "Shape \<Rightarrow> Constraint list" where
  "getConstraints s = constraints s"



text \<open>
  Modelled from the spec: \<^verbatim>\<open>getObject\<close> of the query layer is not among the sources;
  it is the "single bound term" form of a match on subject and predicate.
\<close>

definition getObject :: "graph \<Rightarrow> rdfterm \<Rightarrow> rdfterm \<Rightarrow> rdfterm option" where
  "getObject g s p = getNode object (match g (Some s) (Some p) None)"

text \<open>
  The results of compiling the members of a list, in order: the first member that throws
  (or does not return) ends the loop.
\<close>

fun sequenceResults :: "(error + 'a) option list \<Rightarrow> (error + 'a list) option" where
  "sequenceResults [] = Some (Inr [])"
| "sequenceResults (None # rs) = None"
| "sequenceResults (Some (Inl e) # rs) = Some (Inl e)"
| "sequenceResults (Some (Inr x) # rs) =
     (case sequenceResults rs of
        None \<Rightarrow> None
      | Some (Inl e) \<Rightarrow> Some (Inl e)
      | Some (Inr xs) \<Rightarrow> Some (Inr (x # xs)))"

definition compileMembers ::
  "(rdfterm \<Rightarrow> (error + rdfpath) option) \<Rightarrow> (error + rdfterm list) option \<Rightarrow>
   (rdfpath list \<Rightarrow> rdfpath) \<Rightarrow> (error + rdfpath) option" where
  "compileMembers compile members wrap =
     (case members of
        None \<Rightarrow> None
      | Some (Inl e) \<Rightarrow> Some (Inl e)
      | Some (Inr paths) \<Rightarrow>
          (case sequenceResults (map compile paths) of
             None \<Rightarrow> None
           | Some (Inl e) \<Rightarrow> Some (Inl e)
           | Some (Inr result) \<Rightarrow> Some (Inr (wrap result))))"

definition compileUnary ::
  "(error + rdfpath) option \<Rightarrow> (rdfpath \<Rightarrow> rdfpath) \<Rightarrow> (error + rdfpath) option" where
  "compileUnary sub wrap =
     (case sub of
        None \<Rightarrow> None
      | Some (Inl e) \<Rightarrow> Some (Inl e)
      | Some (Inr q) \<Rightarrow> Some (Inr (wrap q)))"

text \<open>
  \<^verbatim>\<open>toRDFQueryPath\<close> recurses along the path structure that the shapes graph describes,
  which may be cyclic; the first argument bounds the depth of the recursion, and \<open>None\<close>
  is the call that has not returned within it. \<open>Inl\<close> is the thrown error.
\<close>

fun toRDFQueryPath :: "nat \<Rightarrow> Context \<Rightarrow> rdfterm \<Rightarrow> (error + rdfpath) option" where
  "toRDFQueryPath 0 cx shPath = None"
| "toRDFQueryPath (Suc k) cx shPath =
     (if termType shPath = ''Collection''
      then compileMembers (toRDFQueryPath k cx) (rdfListToArray cx (dshapes cx) shPath) Seq
      else if termType shPath = ''NamedNode''
      then Some (Inr (Pred shPath))
      else if termType shPath = ''BlankNode''
      then
        (if getObject (dshapes cx) shPath (rdf ''first'') \<noteq> None
         then compileMembers (toRDFQueryPath k cx) (rdfListToArray cx (dshapes cx) shPath) Seq
         else case getObject (dshapes cx) shPath (sh ''alternativePath'') of
           Some alternativePath \<Rightarrow>
             compileMembers (toRDFQueryPath k cx)
               (rdfListToArray cx (dshapes cx) alternativePath) Or
         | None \<Rightarrow>
        (case getObject (dshapes cx) shPath (sh ''zeroOrMorePath'') of
           Some zeroOrMorePath \<Rightarrow> compileUnary (toRDFQueryPath k cx zeroOrMorePath) ZeroOrMore
         | None \<Rightarrow>
        (case getObject (dshapes cx) shPath (sh ''oneOrMorePath'') of
           Some oneOrMorePath \<Rightarrow> compileUnary (toRDFQueryPath k cx oneOrMorePath) OneOrMore
         | None \<Rightarrow>
        (case getObject (dshapes cx) shPath (sh ''zeroOrOnePath'') of
           Some zeroOrOnePath \<Rightarrow> compileUnary (toRDFQueryPath k cx zeroOrOnePath) ZeroOrOne
         | None \<Rightarrow>
        (case getObject (dshapes cx) shPath (sh ''inversePath'') of
           Some inversePath \<Rightarrow> compileUnary (toRDFQueryPath k cx inversePath) Inverse
         | None \<Rightarrow> Some (Inl (UnsupportedPath shPath)))))))
      else Some (Inl (UnsupportedPath shPath)))"


section \<open>ShapesGraph: shapes on demand\<close>

text \<open>
  An operation that may write to the ShapesGraph returns its result with the new state.
  \<^verbatim>\<open>new Shape(...)\<close> allocates the next position of the heap. \<open>getShape\<close> returns what the
  read of \<^verbatim>\<open>this.shapes\<close> yields when that is truthy: the cached Shape, or the value
  inherited under the key. A constructor that raises leaves the ShapesGraph as it was.
\<close>

definition getShape :: "ShapesGraph \<Rightarrow> rdfterm \<Rightarrow> (error + nat jsvalue \<times> ShapesGraph) option" where
  "getShape sg n =
     (case shapes sg (tvalue n) of
        Some r \<Rightarrow> Some (Inr (Own r, sg))
      | None \<Rightarrow>
          if tvalue n \<in> set objectPrototypeKeys then Some (Inr (Inherited (tvalue n), sg))
          else (case new_Shape sg n of
                  None \<Rightarrow> None
                | Some (Inl e) \<Rightarrow> Some (Inl e)
                | Some (Inr s) \<Rightarrow>
                    Some (Inr (Own (length (heap sg)),
                               sg\<lparr>heap := heap sg @ [s],
                                  shapes := (shapes sg)(tvalue n \<mapsto> length (heap sg))\<rparr>))))"






section \<open>Predicates used in the statements\<close>

text \<open>A component declares a parameter when one of its parameters has that value.\<close>

definition declaresParameter :: "ConstraintComponent \<Rightarrow> rdfterm \<Rightarrow> bool" where
  "declaresParameter c p = (tvalue p \<in> set (map tvalue (getParameters c)))"




text \<open>
  A later state extends an earlier one when it has the same context and keeps every cache
  entry of the earlier state, with the same Shape object behind it.
\<close>

definition cacheExtends :: "ShapesGraph \<Rightarrow> ShapesGraph \<Rightarrow> bool" where
  "cacheExtends sg sg' =
     (ctx sg' = ctx sg \<and>
      (\<forall>k r. shapes sg k = Some r \<longrightarrow> shapes sg' k = Some r \<and> heap sg' ! r = heap sg ! r))"

text \<open>
  The Shape behind a result of \<open>getShape\<close>, when the result is a Shape of the heap.
\<close>

definition shapeOf :: "ShapesGraph \<Rightarrow> nat jsvalue \<Rightarrow> Shape option" where
  "shapeOf sg r =
     (case r of Own i \<Rightarrow> (if i < length (heap sg) then Some (heap sg ! i) else None)
      | Inherited k \<Rightarrow> None
      | Undefined \<Rightarrow> None)"

section \<open>A concrete context for examples\<close>

text \<open>
  To run the operations on concrete graphs, the parameters of the context are
  instantiated: type-instance lookup by the \<^verbatim>\<open>rdf:type\<close> triples of the graph itself, list
  decoding by following \<^verbatim>\<open>rdf:first\<close> and \<^verbatim>\<open>rdf:rest\<close> (a walk longer than the graph has
  triples is a walk around a cycle, which never ends), the local name as the text after
  the last \<^verbatim>\<open>#\<close>, or after the last \<^verbatim>\<open>/\<close> when there is no \<^verbatim>\<open>#\<close>, and an error when
  there is neither, a traversal that follows direct predicates only, and a registry
  with no validator.
\<close>

definition directInstances :: "graph \<Rightarrow> rdfterm \<Rightarrow> NodeSet" where
  "directInstances g cls =
     NodeSet_addAll [] (getNodeArray subject (match g None (Some (rdf ''type'')) (Some cls)))"

definition isDirectInstance :: "graph \<Rightarrow> rdfterm \<Rightarrow> rdfterm \<Rightarrow> bool" where
  "isDirectInstance g x cls = hasSolution (match g (Some x) (Some (rdf ''type'')) (Some cls))"

fun walkList :: "nat \<Rightarrow> graph \<Rightarrow> rdfterm \<Rightarrow> (error + rdfterm list) option" where
  "walkList 0 g l = None"
| "walkList (Suc k) g l =
     (if l = rdf ''nil'' then Some (Inr [])
      else case getObject g l (rdf ''first'') of
        None \<Rightarrow> Some (Inl (QueryError ''malformed list''))
      | Some x \<Rightarrow>
          (case getObject g l (rdf ''rest'') of
             None \<Rightarrow> Some (Inl (QueryError ''malformed list''))
           | Some r \<Rightarrow>
               (case walkList k g r of
                  None \<Rightarrow> None
                | Some (Inl e) \<Rightarrow> Some (Inl e)
                | Some (Inr xs) \<Rightarrow> Some (Inr (x # xs)))))"

definition localName :: "string \<Rightarrow> error + string" where
  "localName uri =
     (if CHR ''#'' \<in> set uri then Inr (rev (takeWhile (\<lambda>ch. ch \<noteq> CHR ''#'') (rev uri)))
      else if CHR ''/'' \<in> set uri then Inr (rev (takeWhile (\<lambda>ch. ch \<noteq> CHR ''/'') (rev uri)))
      else Inl (LocalNameError uri))"

fun directPath :: "graph \<Rightarrow> rdfterm \<Rightarrow> rdfpath \<Rightarrow> rdfterm list" where
  "directPath g focusNode (Pred p) = getNodeArray object (match g (Some focusNode) (Some p) None)"
| "directPath g focusNode other = []"

definition exampleContext :: "graph \<Rightarrow> Context" where
  "exampleContext g =
     \<lparr>dshapes = g, isInstanceOf = isDirectInstance, getInstancesOf = directInstances,
      rdfListToArray = (\<lambda>g' l. walkList (Suc (length g')) g' l),
      getLocalName = localName, queryPath = directPath,
      validatorField = (\<lambda>x field. False)\<rparr>"

text \<open>
  A shapes graph with a component of one parameter (\<^verbatim>\<open>ex:min\<close>) and a component of two
  required parameters (\<^verbatim>\<open>ex:lo\<close>, \<^verbatim>\<open>ex:hi\<close>). Shape \<^verbatim>\<open>ex:S\<close> asserts \<^verbatim>\<open>ex:min\<close> twice and
  \<^verbatim>\<open>ex:lo\<close> without \<^verbatim>\<open>ex:hi\<close>; shape \<^verbatim>\<open>ex:T\<close> asserts both \<^verbatim>\<open>ex:lo\<close> and \<^verbatim>\<open>ex:hi\<close>. The
  prefix \<^verbatim>\<open>ex:\<close> stands for \<^verbatim>\<open>http://example.org/\<close>.
\<close>

definition ex :: "string \<Rightarrow> rdfterm" where
  "ex local = NamedNode (''http://example.org/'' @ local)"

definition num :: "string \<Rightarrow> rdfterm" where
  "num digits = Literal digits [] ''http://www.w3.org/2001/XMLSchema#integer''"

definition shapesA :: graph where
  "shapesA =
     [(ex ''MinC'', rdf ''type'', sh ''ConstraintComponent''),
      (ex ''MinC'', sh ''parameter'', BlankNode ''p1''),
      (BlankNode ''p1'', sh ''path'', ex ''min''),
      (ex ''PairC'', rdf ''type'', sh ''ConstraintComponent''),
      (ex ''PairC'', sh ''parameter'', BlankNode ''p2''),
      (BlankNode ''p2'', sh ''path'', ex ''lo''),
      (ex ''PairC'', sh ''parameter'', BlankNode ''p3''),
      (BlankNode ''p3'', sh ''path'', ex ''hi''),
      (ex ''S'', ex ''min'', num ''1''),
      (ex ''S'', ex ''min'', num ''2''),
      (ex ''S'', ex ''lo'', num ''0''),
      (ex ''T'', ex ''lo'', num ''0''),
      (ex ''T'', ex ''hi'', num ''9'')]"

definition contextA :: Context where
  "contextA = exampleContext shapesA"



text \<open>
  The shapes graph of the first example with one more shape, \<^verbatim>\<open>ex:U\<close>. Before the one
  parameter of \<^verbatim>\<open>ex:MinC\<close>, it asserts a predicate that no component declares and whose
  value is \<^verbatim>\<open>constructor\<close>, the name of a property of \<^verbatim>\<open>Object.prototype\<close>.
\<close>

definition shapesF :: graph where
  "shapesF =
     shapesA @
     [(ex ''U'', NamedNode ''constructor'', num ''0''),
      (ex ''U'', ex ''min'', num ''1'')]"

definition contextF :: Context where
  "contextF = exampleContext shapesF"



section \<open>Sequences of requests\<close>

text \<open>
  The state of a ShapesGraph after \<open>getShape\<close> has been called for each node of a list,
  up to the first call that raises.
\<close>

fun getShapes :: "ShapesGraph \<Rightarrow> rdfterm list \<Rightarrow> (error + ShapesGraph) option" where
  "getShapes sg [] = Some (Inr sg)"
| "getShapes sg (n # ns) =
     (case getShape sg n of
        None \<Rightarrow> None
      | Some (Inl e) \<Rightarrow> Some (Inl e)
      | Some (Inr r) \<Rightarrow> getShapes (snd r) ns)"

text \<open>
  A shapes graph with cyclic shape references: \<^verbatim>\<open>ex:A\<close> and \<^verbatim>\<open>ex:B\<close> name each other
  through \<^verbatim>\<open>sh:node\<close>, the parameter of a one-parameter component, and \<^verbatim>\<open>ex:Z\<close> names itself.
\<close>

definition shapesC :: graph where
  "shapesC =
     [(sh ''NodeConstraintComponent'', rdf ''type'', sh ''ConstraintComponent''),
      (sh ''NodeConstraintComponent'', sh ''parameter'', BlankNode ''pn''),
      (BlankNode ''pn'', sh ''path'', sh ''node''),
      (ex ''A'', sh ''node'', ex ''B''),
      (ex ''B'', sh ''node'', ex ''A''),
      (ex ''Z'', sh ''node'', ex ''Z'')]"

definition contextC :: Context where
  "contextC = exampleContext shapesC"






section \<open>Closure paths\<close>

text \<open>
  Modelled from the spec: the evaluation of a compiled path is done by the query layer
  (\<^verbatim>\<open>query().path(...)\<close>), which is not among the sources. The spec asks that the
  evaluation of zero-or-more and one-or-more be a reachability closure, "repeated
  application until no new nodes are produced", in which "a node already visited along
  the current closure must not be revisited". \<open>newNodes\<close> is one application of the
  sub-path to the frontier, without the nodes already visited; \<open>closure\<close> repeats it. The
  loop is written as it is, with no bound: \<open>None\<close> is the loop that does not end.
\<close>

definition newNodes ::
  "(rdfterm \<Rightarrow> rdfterm list) \<Rightarrow> rdfterm list \<Rightarrow> rdfterm list \<Rightarrow> rdfterm list" where
  "newNodes step visited frontier =
     NodeSet_addAll [] (filter (\<lambda>y. y \<notin> set visited) (concat (map step frontier)))"

partial_function (option) closure ::
  "(rdfterm \<Rightarrow> rdfterm list) \<Rightarrow> rdfterm list \<Rightarrow> rdfterm list \<Rightarrow> rdfterm list option" where
  "closure step visited frontier =
     (if newNodes step visited frontier = [] then Some visited
      else closure step (visited @ newNodes step visited frontier)
             (newNodes step visited frontier))"

declare closure.simps [code]

text \<open>
  Modelled from the spec: a direct predicate leads from a node to the objects of its
  triples with that predicate; zero-or-more starts the closure from the focus node,
  one-or-more from the nodes one step away from it.
\<close>

definition pathStep :: "graph \<Rightarrow> rdfterm \<Rightarrow> rdfterm \<Rightarrow> rdfterm list" where
  "pathStep g p x = getNodeArray object (match g (Some x) (Some p) None)"

definition evalZeroOrMore :: "graph \<Rightarrow> rdfterm \<Rightarrow> rdfterm \<Rightarrow> rdfterm list option" where
  "evalZeroOrMore g p focusNode = closure (pathStep g p) [focusNode] [focusNode]"

definition evalOneOrMore :: "graph \<Rightarrow> rdfterm \<Rightarrow> rdfterm \<Rightarrow> rdfterm list option" where
  "evalOneOrMore g p focusNode =
     closure (pathStep g p) (NodeSet_addAll [] (pathStep g p focusNode))
                            (NodeSet_addAll [] (pathStep g p focusNode))"

text \<open>The edges of a data graph along a predicate, and the edges of a step function.\<close>

definition edges :: "graph \<Rightarrow> rdfterm \<Rightarrow> (rdfterm \<times> rdfterm) set" where
  "edges g p = set (map (\<lambda>t. (subject t, object t)) (filter (\<lambda>t. predicate t = p) g))"

definition stepRel :: "(rdfterm \<Rightarrow> rdfterm list) \<Rightarrow> (rdfterm \<times> rdfterm) set" where
  "stepRel step = {(x, y). y \<in> set (step x)}"

text \<open>
  A data graph with a cycle through \<^verbatim>\<open>ex:knows\<close>: a, b, c and back to a; d leads into
  the cycle, and e stands apart.
\<close>

definition dataE :: graph where
  "dataE =
     [(ex ''a'', ex ''knows'', ex ''b''),
      (ex ''b'', ex ''knows'', ex ''c''),
      (ex ''c'', ex ''knows'', ex ''a''),
      (ex ''c'', ex ''knows'', ex ''b''),
      (ex ''d'', ex ''knows'', ex ''a''),
      (ex ''e'', ex ''likes'', ex ''a'')]"

section \<open>The parameter index\<close>

lemma assignParameter_fold:
  "fst (foldl (assignParameter c) m ps) k =
     (if k \<noteq> ''__proto__'' \<and> k \<in> set (map tvalue ps) then Some c else fst m k)"
  "snd (foldl (assignParameter c) m ps) =
     (if ''__proto__'' \<in> set (map tvalue ps) then Some c else snd m)"
  by (induction ps arbitrary: m) (auto simp: assignParameter_def)

lemma registerParameters_apply:
  "fst (registerParameters m c) k =
     (if k \<noteq> ''__proto__'' \<and> k \<in> set (map tvalue (getParameters c)) then Some c else fst m k)"
  "snd (registerParameters m c) =
     (if ''__proto__'' \<in> set (map tvalue (getParameters c)) then Some c else snd m)"
  by (simp_all add: registerParameters_def assignParameter_fold)

lemma parametersMap_fold:
  "fst (foldl registerParameters m cs) k =
     (if k = ''__proto__'' \<or> filter (\<lambda>c. k \<in> set (map tvalue (getParameters c))) cs = []
      then fst m k
      else Some (last (filter (\<lambda>c. k \<in> set (map tvalue (getParameters c))) cs)))"
proof (induction cs arbitrary: m)
  case Nil
  then show ?case by simp
next
  case (Cons c cs)
  define m' where "m' = registerParameters m c"
  have m': "fst m' k =
      (if k \<noteq> ''__proto__'' \<and> k \<in> set (map tvalue (getParameters c)) then Some c else fst m k)"
    unfolding m'_def by (rule registerParameters_apply)
  have "fst (foldl registerParameters m (c # cs)) k = fst (foldl registerParameters m' cs) k"
    by (simp add: m'_def)
  also have "\<dots> =
      (if k = ''__proto__'' \<or> filter (\<lambda>c. k \<in> set (map tvalue (getParameters c))) cs = []
       then fst m' k
       else Some (last (filter (\<lambda>c. k \<in> set (map tvalue (getParameters c))) cs)))"
    by (rule Cons.IH)
  finally show ?case
    using m' by (cases "k = ''__proto__''") auto
qed

lemma parametersProto_fold:
  "snd (foldl registerParameters m cs) =
     (if filter (\<lambda>c. ''__proto__'' \<in> set (map tvalue (getParameters c))) cs = []
      then snd m
      else Some (last (filter (\<lambda>c. ''__proto__'' \<in> set (map tvalue (getParameters c))) cs)))"
proof (induction cs arbitrary: m)
  case Nil
  then show ?case by simp
next
  case (Cons c cs)
  define m' where "m' = registerParameters m c"
  have m': "snd m' =
      (if ''__proto__'' \<in> set (map tvalue (getParameters c)) then Some c else snd m)"
    unfolding m'_def by (rule registerParameters_apply)
  have "snd (foldl registerParameters m (c # cs)) = snd (foldl registerParameters m' cs)"
    by (simp add: m'_def)
  also have "\<dots> =
      (if filter (\<lambda>c. ''__proto__'' \<in> set (map tvalue (getParameters c))) cs = []
       then snd m'
       else Some (last (filter (\<lambda>c. ''__proto__'' \<in> set (map tvalue (getParameters c))) cs)))"
    by (rule Cons.IH)
  finally show ?case
    using m' by simp
qed

lemma parametersMap_new:
  "parametersMap (new_ShapesGraph cx) k =
     (if k = ''__proto__'' \<or>
         filter (\<lambda>c. k \<in> set (map tvalue (getParameters c))) (components (new_ShapesGraph cx)) = []
      then None
      else Some (last (filter (\<lambda>c. k \<in> set (map tvalue (getParameters c)))
                         (components (new_ShapesGraph cx)))))"
  by (simp add: new_ShapesGraph_def Let_def parametersMap_fold)

lemma parametersProto_new:
  "parametersProto (new_ShapesGraph cx) =
     (if filter (\<lambda>c. ''__proto__'' \<in> set (map tvalue (getParameters c)))
           (components (new_ShapesGraph cx)) = []
      then None
      else Some (last (filter (\<lambda>c. ''__proto__'' \<in> set (map tvalue (getParameters c)))
                         (components (new_ShapesGraph cx)))))"
  by (simp add: new_ShapesGraph_def Let_def parametersProto_fold)

lemma lookup_declared:
  assumes "filter (\<lambda>d. declaresParameter d p) (components (new_ShapesGraph cx)) \<noteq> []"
  shows "getComponentWithParameter (new_ShapesGraph cx) p =
           Own (last (filter (\<lambda>d. declaresParameter d p) (components (new_ShapesGraph cx))))"
proof (cases "tvalue p = ''__proto__''")
  case True
  then show ?thesis
    using assms
    by (simp add: getComponentWithParameter_def Let_def parametersProto_new declaresParameter_def)
next
  case False
  then show ?thesis
    using assms
    by (simp add: getComponentWithParameter_def Let_def parametersMap_new declaresParameter_def)
qed

lemma lookup_Own:
  assumes "getComponentWithParameter (new_ShapesGraph cx) p = Own c"
  shows "c \<in> set (components (new_ShapesGraph cx)) \<and> declaresParameter c p"
proof -
  let ?f = "filter (\<lambda>d. declaresParameter d p) (components (new_ShapesGraph cx))"
  have ne: "?f \<noteq> []"
  proof
    assume e: "?f = []"
    show False
    proof (cases "tvalue p = ''__proto__''")
      case True
      then show ?thesis
        using assms e
        by (simp add: getComponentWithParameter_def Let_def parametersProto_new
            declaresParameter_def)
    next
      case False
      then show ?thesis
        using assms e
        by (auto simp: getComponentWithParameter_def Let_def parametersMap_new
            declaresParameter_def split: option.splits if_splits)
    qed
  qed
  then have "c = last ?f" using assms lookup_declared[OF ne] by simp
  moreover have "last ?f \<in> set ?f" using ne by (rule last_in_set)
  ultimately show ?thesis by auto
qed



section \<open>The loops of a component and of a constraint\<close>

lemma isComplete_loop_from:
  "isComplete_loop cx c n i =
     Some (\<forall>p \<in> set (drop i (parameters c)).
             \<not> isOptional c (tvalue p) \<longrightarrow>
             hasSolution (match (dshapes cx) (Some n) (Some p) None))"
proof (induction "length (parameters c) - i" arbitrary: i)
  case 0
  then show ?case by (subst isComplete_loop.simps) simp
next
  case (Suc d)
  then have i: "i < length (parameters c)" and d: "d = length (parameters c) - Suc i"
    by simp_all
  have dr: "drop i (parameters c) = parameters c ! i # drop (Suc i) (parameters c)"
    using i by (simp add: Cons_nth_drop_Suc)
  show ?case
    using i Suc.hyps(1)[OF d]
    by (subst isComplete_loop.simps) (simp add: dr)
qed

lemma isComplete_iff:
  "isComplete cx c n =
     Some (\<forall>p \<in> set (getParameters c).
             \<not> isOptional c (tvalue p) \<longrightarrow>
             hasSolution (match (dshapes cx) (Some n) (Some p) None))"
  by (simp add: isComplete_def isComplete_loop_from getParameters_def)

lemma bindParameters_returns:
  "\<exists>r. bindParameters cx n params pv i vals = Some r"
proof (induction "length params - i" arbitrary: i vals)
  case 0
  then show ?case by (subst bindParameters.simps) simp
next
  case (Suc d)
  then have i: "i < length params" and d: "d = length params - Suc i"
    by simp_all
  show ?case
    using i Suc.hyps(1)[OF d]
    by (subst bindParameters.simps) (simp split: option.splits sum.splits)
qed

lemma new_Constraint_returns: "\<exists>r. new_Constraint cx n c pv = Some r"
proof -
  obtain r where "bindParameters cx n (getParameters c) pv 0 [] = Some r"
    using bindParameters_returns by blast
  then show ?thesis by (cases r) (simp_all add: new_Constraint_def)
qed


lemma new_Constraint_single:
  assumes "getParameters c = [p]"
  shows "new_Constraint cx n c (Some v) =
           (case getLocalName cx (tvalue p) of
              Inl e \<Rightarrow> Some (Inl e)
            | Inr l \<Rightarrow> Some (Inr \<lparr>shape = n, component = c, paramValue = Some v,
                                   parameterValues = [(l, v)]\<rparr>))"
proof -
  have e: "bindParameters cx n [p] (Some v) (Suc 0) vals = Some (Inr vals)" for vals
    by (subst bindParameters.simps) simp
  have "bindParameters cx n [p] (Some v) 0 [] =
          (case getLocalName cx (tvalue p) of
             Inl e \<Rightarrow> Some (Inl e) | Inr l \<Rightarrow> Some (Inr [(l, v)]))"
    by (subst bindParameters.simps) (simp add: valueFor_def e split: sum.splits)
  then show ?thesis
    using assms by (simp add: new_Constraint_def split: sum.splits)
qed

section \<open>The loop of the Shape constructor\<close>



lemma collectConstraints_returns:
  "\<exists>r. collectConstraints sg n sols ks handled = Some r"
proof (induction sols arbitrary: ks handled)
  case Nil
  then show ?case by simp
next
  case (Cons sol sols)
  show ?case
  proof (cases "getComponentWithParameter sg (predicate sol)")
    case Undefined
    then show ?thesis using Cons by simp
  next
    case (Inherited k)
    then show ?thesis by simp
  next
    case (Own c)
    obtain r1 where r1: "new_Constraint (ctx sg) n c (Some (object sol)) = Some r1"
      using new_Constraint_returns by blast
    obtain r2 where r2: "new_Constraint (ctx sg) n c None = Some r2"
      using new_Constraint_returns by blast
    obtain b where b: "isComplete (ctx sg) c n = Some b"
      by (simp add: isComplete_iff)
    show ?thesis
      using Own r1 r2 b Cons
      by (cases r1; cases r2; cases b) simp_all
  qed
qed



lemma node_addParameter: "node (addParameter g c sol) = node c"
  by (simp add: addParameter_def Let_def)

lemma node_new_ConstraintComponent: "node (new_ConstraintComponent cx x) = x"
proof -
  have "node (foldl (addParameter g) c sols) = node c" for g c sols
    by (induction sols arbitrary: c) (simp_all add: node_addParameter)
  then show ?thesis by (simp add: new_ConstraintComponent_def)
qed

lemma component_by_node:
  assumes "c \<in> set (components (new_ShapesGraph cx))"
  shows "c = new_ConstraintComponent cx (node c)"
proof -
  from assms obtain x where "c = new_ConstraintComponent cx x"
    by (auto simp: new_ShapesGraph_def Let_def)
  then show ?thesis by (simp add: node_new_ConstraintComponent)
qed


lemma ctx_new_ShapesGraph: "ctx (new_ShapesGraph cx) = cx"
  by (simp add: new_ShapesGraph_def Let_def)







lemma lookup_eq_iff:
  "getComponentWithParameter (new_ShapesGraph cx) p = Own (new_ConstraintComponent cx x) \<longleftrightarrow>
   (case getComponentWithParameter (new_ShapesGraph cx) p of
      Own d \<Rightarrow> node d = x | Inherited k \<Rightarrow> False | Undefined \<Rightarrow> False)"
proof (cases "getComponentWithParameter (new_ShapesGraph cx) p")
  case (Own d)
  then have "d = new_ConstraintComponent cx (node d)"
    using lookup_Own component_by_node by blast
  then show ?thesis using Own by (auto simp: node_new_ConstraintComponent)
qed simp_all


lemma parameters_fold:
  "parameters (foldl (addParameter g) c sols) = parameters c @ map snd sols"
  by (induction sols arbitrary: c) (simp_all add: addParameter_def Let_def)




lemma parameters_new:
  "getParameters (new_ConstraintComponent cx x) = map snd (parameterSolutions (dshapes cx) x)"
  by (simp add: new_ConstraintComponent_def getParameters_def parameters_fold)



section \<open>Claims about the constraints of a shape\<close>




lemma result_cases:
  assumes "case x of Some (Inr p) \<Rightarrow> P p | Some (Inl e) \<Rightarrow> False | None \<Rightarrow> False"
  obtains p where "x = Some (Inr p)" and "P p"
  using assms by (auto split: option.splits sum.splits)


lemma new_ShapesGraph_empty:
  "shapes (new_ShapesGraph cx) = Map.empty" "heap (new_ShapesGraph cx) = []"
  "targetShapes (new_ShapesGraph cx) = None" "shapeNodesWithConstraints (new_ShapesGraph cx) = None"
  by (simp_all add: new_ShapesGraph_def Let_def)

lemma collect_inherited_raises:
  "\<exists>sol \<in> set sols. \<exists>k. getComponentWithParameter sg (predicate sol) = Inherited k \<Longrightarrow>
   \<exists>e. collectConstraints sg n sols ks handled = Some (Inl e)"
proof (induction sols arbitrary: ks handled)
  case Nil
  then show ?case by simp
next
  case (Cons sol sols)
  show ?case
  proof (cases "getComponentWithParameter sg (predicate sol)")
    case Undefined
    then have "\<exists>s \<in> set sols. \<exists>k. getComponentWithParameter sg (predicate s) = Inherited k"
      using Cons.prems by auto
    from Cons.IH[OF this] show ?thesis using Undefined by simp
  next
    case (Inherited k)
    then show ?thesis by simp
  next
    case (Own c)
    then have tl: "\<exists>s \<in> set sols. \<exists>k. getComponentWithParameter sg (predicate s) = Inherited k"
      using Cons.prems by auto
    obtain r1 where r1: "new_Constraint (ctx sg) n c (Some (object sol)) = Some r1"
      using new_Constraint_returns by blast
    obtain r2 where r2: "new_Constraint (ctx sg) n c None = Some r2"
      using new_Constraint_returns by blast
    obtain b where b: "isComplete (ctx sg) c n = Some b"
      by (simp add: isComplete_iff)
    show ?thesis
      using Own r1 r2 b Cons.IH[OF tl]
      by (cases r1; cases r2; cases b) simp_all
  qed
qed

lemma lookup_undeclared_inherited:
  assumes "tvalue p \<in> set objectPrototypeKeys"
    and "\<forall>c \<in> set (components (new_ShapesGraph cx)). \<not> declaresParameter c p"
  shows "getComponentWithParameter (new_ShapesGraph cx) p = Inherited (tvalue p)"
proof -
  have e: "filter (\<lambda>c. tvalue p \<in> set (map tvalue (getParameters c)))
             (components (new_ShapesGraph cx)) = []"
    using assms(2) by (auto simp: filter_empty_conv declaresParameter_def)
  show ?thesis
  proof (cases "tvalue p = ''__proto__''")
    case True
    then show ?thesis
      using e by (simp add: getComponentWithParameter_def Let_def parametersProto_new)
  next
    case False
    then show ?thesis
      using e assms(1)
      by (simp add: getComponentWithParameter_def Let_def parametersMap_new split: option.splits)
  qed
qed

text \<open>
  Claim C2. The claim is that the Shape constructor creates, for every outgoing triple of
  the shape node whose predicate is a registered parameter of a component with exactly
  one parameter, one constraint with that triple's object, and for a component with
  several parameters at most one constraint, when \<open>isComplete\<close> holds, and that it raises
  no error. When the constructor returns, the constraints are these (the lemmas
  \<open>constraints_single\<close> and \<open>constraints_multi\<close>). But the code diverges from the claim
  when the shape node has an outgoing triple whose predicate has the value of a property
  that the parameter index inherits: a predicate that no component declares and whose
  value is the name of a property of \<^verbatim>\<open>Object.prototype\<close> is one. The read of the
  index yields the inherited property, the constructor takes it for a component and
  raises, wherever the triple stands among the outgoing triples; no Shape exists, so no
  constraint is created for the other triples of the node, and a \<open>getShape\<close> that has to
  construct the Shape raises as well.
\<close>

theorem C2_inherited_predicate_raises:
  "(tvalue p \<in> set objectPrototypeKeys \<and>
    (\<forall>c \<in> set (components (new_ShapesGraph cx)). \<not> declaresParameter c p) \<longrightarrow>
      getComponentWithParameter (new_ShapesGraph cx) p = Inherited (tvalue p))
   \<and> ((\<exists>sol \<in> set (match (dshapes (ctx sg)) (Some n) None None).
          \<exists>k. getComponentWithParameter sg (predicate sol) = Inherited k) \<longrightarrow>
        (\<exists>e. new_Shape sg n = Some (Inl e)) \<and>
        (shapes sg (tvalue n) = None \<and> tvalue n \<notin> set objectPrototypeKeys \<longrightarrow>
           (\<exists>e. getShape sg n = Some (Inl e))))"
proof (intro conjI impI)
  assume "tvalue p \<in> set objectPrototypeKeys \<and>
    (\<forall>c \<in> set (components (new_ShapesGraph cx)). \<not> declaresParameter c p)"
  then show "getComponentWithParameter (new_ShapesGraph cx) p = Inherited (tvalue p)"
    by (intro lookup_undeclared_inherited) blast+
next
  assume "\<exists>sol \<in> set (match (dshapes (ctx sg)) (Some n) None None).
            \<exists>k. getComponentWithParameter sg (predicate sol) = Inherited k"
  then obtain e where
    "collectConstraints sg n (match (dshapes (ctx sg)) (Some n) None None) [] [] = Some (Inl e)"
    using collect_inherited_raises by blast
  then have e: "new_Shape sg n = Some (Inl e)"
    by (simp add: new_Shape_def Let_def)
  then show "\<exists>e. new_Shape sg n = Some (Inl e)" by blast
  assume "shapes sg (tvalue n) = None \<and> tvalue n \<notin> set objectPrototypeKeys"
  then have "getShape sg n = Some (Inl e)"
    using e by (simp add: getShape_def)
  then show "\<exists>e. getShape sg n = Some (Inl e)" by blast
qed

text \<open>
  In the example, \<^verbatim>\<open>ex:U\<close> asserts the predicate \<^verbatim>\<open>constructor\<close>, which no component
  declares, and then \<^verbatim>\<open>ex:min\<close>, the one parameter of \<^verbatim>\<open>ex:MinC\<close>: the constructor,
  and with it \<open>getShape\<close>, raises a TypeError, and no constraint is created for the
  triple with \<^verbatim>\<open>ex:min\<close>.
\<close>

theorem C2_witness:
  "map predicate (match (dshapes contextF) (Some (ex ''U'')) None None) =
     [NamedNode ''constructor'', ex ''min''] \<and>
   filter (\<lambda>c. declaresParameter c (NamedNode ''constructor''))
     (components (new_ShapesGraph contextF)) = [] \<and>
   getComponentWithParameter (new_ShapesGraph contextF) (NamedNode ''constructor'') =
     Inherited ''constructor'' \<and>
   getComponentWithParameter (new_ShapesGraph contextF) (ex ''min'') =
     Own (new_ConstraintComponent contextF (ex ''MinC'')) \<and>
   length (getParameters (new_ConstraintComponent contextF (ex ''MinC''))) = 1 \<and>
   new_Shape (new_ShapesGraph contextF) (ex ''U'') = Some (Inl (TypeError ''constructor'')) \<and>
   getShape (new_ShapesGraph contextF) (ex ''U'') = Some (Inl (TypeError ''constructor''))"
proof -
  let ?sg = "new_ShapesGraph contextF"
  have a: "map predicate (match (dshapes contextF) (Some (ex ''U'')) None None) =
     [NamedNode ''constructor'', ex ''min'']"
    by code_simp
  have b: "filter (\<lambda>c. declaresParameter c (NamedNode ''constructor'')) (components ?sg) = []"
    by code_simp
  have k0: "tvalue (NamedNode ''constructor'') \<in> set objectPrototypeKeys" by code_simp
  have c: "getComponentWithParameter ?sg (NamedNode ''constructor'') = Inherited ''constructor''"
    using C2_inherited_predicate_raises[where p = "NamedNode ''constructor''" and cx = contextF]
      b k0
    by (simp add: filter_empty_conv)
  have d: "getComponentWithParameter ?sg (ex ''min'') =
             Own (new_ConstraintComponent contextF (ex ''MinC''))"
    by code_simp
  have e: "length (getParameters (new_ConstraintComponent contextF (ex ''MinC''))) = 1"
    by code_simp
  have m: "(ex ''U'', NamedNode ''constructor'', num ''0'') \<in>
             set (match (dshapes (ctx ?sg)) (Some (ex ''U'')) None None)"
    by code_simp
  have k: "tvalue (ex ''U'') \<notin> set objectPrototypeKeys" by code_simp
  have "\<exists>sol \<in> set (match (dshapes (ctx ?sg)) (Some (ex ''U'')) None None).
          \<exists>k. getComponentWithParameter ?sg (predicate sol) = Inherited k"
    using m c by force
  then have "\<exists>e. getShape ?sg (ex ''U'') = Some (Inl e)"
    using C2_inherited_predicate_raises[where sg = ?sg and n = "ex ''U''"] k
    by (simp add: new_ShapesGraph_empty)
  then obtain err where g0: "getShape ?sg (ex ''U'') = Some (Inl err)" by blast
  have f: "new_Shape ?sg (ex ''U'') = Some (Inl (TypeError ''constructor''))"
    by code_simp
  have g: "getShape ?sg (ex ''U'') = Some (Inl (TypeError ''constructor''))"
    using g0 f k by (simp add: getShape_def new_ShapesGraph_empty)
  show ?thesis using a b c d e f g by simp
qed

section \<open>The Shape cache\<close>

lemma new_Shape_returns: "\<exists>r. new_Shape sg n = Some r"
proof -
  obtain r where "collectConstraints sg n (match (dshapes (ctx sg)) (Some n) None None) [] [] =
                    Some r"
    using collectConstraints_returns by blast
  then show ?thesis by (cases r) (simp_all add: new_Shape_def Let_def)
qed

lemma getShape_returns: "\<exists>r. getShape sg n = Some r"
proof -
  obtain r where "new_Shape sg n = Some r"
    using new_Shape_returns by blast
  then show ?thesis
    by (cases r) (simp_all add: getShape_def split: option.splits)
qed

lemma shapeNode_new_Shape: "new_Shape sg n = Some (Inr s) \<Longrightarrow> shapeNode s = n"
  by (auto simp: new_Shape_def Let_def split: option.splits sum.splits)

lemma getShape_cases:
  assumes "getShape sg n = Some (Inr (r, sg'))"
  obtains (cached) i where "shapes sg (tvalue n) = Some i" "r = Own i" "sg' = sg"
  | (inherited) "shapes sg (tvalue n) = None" "tvalue n \<in> set objectPrototypeKeys"
      "r = Inherited (tvalue n)" "sg' = sg"
  | (constructed) s where "shapes sg (tvalue n) = None" "tvalue n \<notin> set objectPrototypeKeys"
      "new_Shape sg n = Some (Inr s)" "r = Own (length (heap sg))"
      "sg' = sg\<lparr>heap := heap sg @ [s], shapes := (shapes sg)(tvalue n \<mapsto> length (heap sg))\<rparr>"
  using assms
  by (auto simp: getShape_def split: option.splits sum.splits if_splits)

lemma getShape_same_value:
  assumes "tvalue t1 = tvalue t2" and "getShape sg t1 = Some (Inr (r, sg'))"
  shows "getShape sg' t2 = Some (Inr (r, sg'))"
  using assms(2)
proof (cases rule: getShape_cases)
  case (cached i)
  then show ?thesis using assms(1) by (simp add: getShape_def)
next
  case inherited
  then show ?thesis using assms(1) by (simp add: getShape_def)
next
  case (constructed s)
  then show ?thesis using assms(1) by (simp add: getShape_def)
qed

lemma getShape_twice:
  "getShape sg n = Some (Inr (r, sg')) \<Longrightarrow> getShape sg' n = Some (Inr (r, sg'))"
  by (rule getShape_same_value) simp_all


lemma getShape_other_keys:
  "getShape sg n = Some (Inr (r, sg')) \<Longrightarrow> k \<noteq> tvalue n \<Longrightarrow> shapes sg' k = shapes sg k"
  by (erule getShape_cases) simp_all

lemma getShape_heap:
  assumes "getShape sg n = Some (Inr (r, sg'))"
  shows "length (heap sg') \<le> Suc (length (heap sg))"
    and "take (length (heap sg)) (heap sg') = heap sg"
    and "shapes sg (tvalue n) \<noteq> None \<Longrightarrow> sg' = sg"
  using assms by (cases rule: getShape_cases; simp)+


lemma lookup_cache:
  "getComponentWithParameter (sg\<lparr>heap := h, shapes := m\<rparr>) p = getComponentWithParameter sg p"
  by (simp add: getComponentWithParameter_def Let_def cong: if_cong option.case_cong)

lemma collectConstraints_cache:
  "collectConstraints (sg\<lparr>heap := h, shapes := m\<rparr>) n sols ks handled =
   collectConstraints sg n sols ks handled"
  by (induction sols arbitrary: ks handled)
     (simp_all add: lookup_cache split: jsvalue.splits option.splits sum.splits bool.splits)

lemma new_Shape_cache:
  "new_Shape (sg\<lparr>heap := h, shapes := m\<rparr>) n = new_Shape sg n"
  by (simp add: new_Shape_def Let_def collectConstraints_cache)

text \<open>
  The cache and the heap correspond: every entry of the cache refers to a Shape of the
  heap whose node has the key as its value, no key is the name of a property of
  \<^verbatim>\<open>Object.prototype\<close>, and every Shape of the heap is the entry of its node's value.
\<close>

lemma getShape_cacheOk:
  assumes ok: "(\<forall>k i. shapes sg k = Some i \<longrightarrow>
                  i < length (heap sg) \<and> tvalue (shapeNode (heap sg ! i)) = k \<and>
                  k \<notin> set objectPrototypeKeys) \<and>
               (\<forall>i < length (heap sg). shapes sg (tvalue (shapeNode (heap sg ! i))) = Some i)"
    and g: "getShape sg n = Some (Inr (r, sg'))"
  shows "(\<forall>k i. shapes sg' k = Some i \<longrightarrow>
            i < length (heap sg') \<and> tvalue (shapeNode (heap sg' ! i)) = k \<and>
            k \<notin> set objectPrototypeKeys) \<and>
         (\<forall>i < length (heap sg'). shapes sg' (tvalue (shapeNode (heap sg' ! i))) = Some i)"
  using g
proof (cases rule: getShape_cases)
  case (cached i)
  then show ?thesis using ok by simp
next
  case inherited
  then show ?thesis using ok by simp
next
  case (constructed s)
  have sn: "shapeNode s = n" using constructed(3) by (rule shapeNode_new_Shape)
  have fresh: "tvalue (shapeNode (heap sg ! i)) \<noteq> tvalue n" if "i < length (heap sg)" for i
    using ok that constructed(1) by force
  show ?thesis
    unfolding constructed(5)
    using ok sn constructed(1,2) fresh
    by (auto simp: nth_append less_Suc_eq)
qed

lemma getShape_dom:
  assumes "getShape sg n = Some (Inr (r, sg'))"
  shows "dom (shapes sg') = dom (shapes sg) \<union> ({tvalue n} - set objectPrototypeKeys)"
  using assms by (cases rule: getShape_cases) auto

lemma getShapes_returns: "\<exists>r. getShapes sg ns = Some r"
proof (induction ns arbitrary: sg)
  case Nil
  then show ?case by simp
next
  case (Cons n ns)
  obtain r where r: "getShape sg n = Some r" using getShape_returns by blast
  show ?case
  proof (cases r)
    case (Inl e)
    then show ?thesis using r by simp
  next
    case (Inr p)
    then show ?thesis using r Cons.IH[of "snd p"] by simp
  qed
qed

lemma getShapes_invariant:
  assumes "(\<forall>k i. shapes sg k = Some i \<longrightarrow>
                  i < length (heap sg) \<and> tvalue (shapeNode (heap sg ! i)) = k \<and>
                  k \<notin> set objectPrototypeKeys) \<and>
               (\<forall>i < length (heap sg). shapes sg (tvalue (shapeNode (heap sg ! i))) = Some i)"
    and "getShapes sg ns = Some (Inr sg')"
  shows "((\<forall>k i. shapes sg' k = Some i \<longrightarrow>
            i < length (heap sg') \<and> tvalue (shapeNode (heap sg' ! i)) = k \<and>
            k \<notin> set objectPrototypeKeys) \<and>
         (\<forall>i < length (heap sg'). shapes sg' (tvalue (shapeNode (heap sg' ! i))) = Some i)) \<and>
         dom (shapes sg') = dom (shapes sg) \<union> (tvalue ` set ns - set objectPrototypeKeys)"
  using assms
proof (induction ns arbitrary: sg)
  case Nil
  then show ?case by simp
next
  case (Cons n ns)
  from Cons.prems(2) obtain r sg1 where g: "getShape sg n = Some (Inr (r, sg1))"
    and rest: "getShapes sg1 ns = Some (Inr sg')"
    by (auto split: option.splits sum.splits)
  note ok1 = getShape_cacheOk[OF Cons.prems(1) g]
  have d: "dom (shapes sg1) = dom (shapes sg) \<union> ({tvalue n} - set objectPrototypeKeys)"
    using g by (rule getShape_dom)
  from Cons.IH[OF ok1 rest] show ?case using d by auto
qed

lemma one_Shape_per_key:
  assumes a: "\<forall>k i. shapes sg k = Some i \<longrightarrow>
                  i < length (heap sg) \<and> tvalue (shapeNode (heap sg ! i)) = k \<and>
                  k \<notin> set objectPrototypeKeys"
    and b: "\<forall>i < length (heap sg). shapes sg (tvalue (shapeNode (heap sg ! i))) = Some i"
  shows "distinct (map (tvalue \<circ> shapeNode) (heap sg))"
    and "set (map (tvalue \<circ> shapeNode) (heap sg)) = dom (shapes sg)"
proof -
  show "distinct (map (tvalue \<circ> shapeNode) (heap sg))"
    unfolding distinct_conv_nth
  proof (intro allI impI)
    fix i j
    assume "i < length (map (tvalue \<circ> shapeNode) (heap sg))"
      and "j < length (map (tvalue \<circ> shapeNode) (heap sg))" and ne: "i \<noteq> j"
    then have i: "i < length (heap sg)" and j: "j < length (heap sg)" by simp_all
    have "shapes sg (tvalue (shapeNode (heap sg ! i))) = Some i"
      "shapes sg (tvalue (shapeNode (heap sg ! j))) = Some j"
      using b i j by blast+
    then have "tvalue (shapeNode (heap sg ! i)) \<noteq> tvalue (shapeNode (heap sg ! j))"
      using ne by auto
    then show "map (tvalue \<circ> shapeNode) (heap sg) ! i \<noteq> map (tvalue \<circ> shapeNode) (heap sg) ! j"
      using i j by simp
  qed
  show "set (map (tvalue \<circ> shapeNode) (heap sg)) = dom (shapes sg)"
  proof
    show "set (map (tvalue \<circ> shapeNode) (heap sg)) \<subseteq> dom (shapes sg)"
      using b by (auto simp: in_set_conv_nth)
    show "dom (shapes sg) \<subseteq> set (map (tvalue \<circ> shapeNode) (heap sg))"
    proof
      fix k
      assume "k \<in> dom (shapes sg)"
      then obtain i where "shapes sg k = Some i" by auto
      then have "i < length (heap sg)" "tvalue (shapeNode (heap sg ! i)) = k"
        using a by blast+
      then show "k \<in> set (map (tvalue \<circ> shapeNode) (heap sg))"
        by (auto simp: in_set_conv_nth intro!: exI[of _ i])
    qed
  qed
qed

lemma getShapes_fresh:
  assumes "getShapes (new_ShapesGraph cx) ns = Some (Inr sg')"
  shows "distinct (map (tvalue \<circ> shapeNode) (heap sg'))"
    and "set (map (tvalue \<circ> shapeNode) (heap sg')) = tvalue ` set ns - set objectPrototypeKeys"
    and "dom (shapes sg') = tvalue ` set ns - set objectPrototypeKeys"
    and "length (heap sg') = card (tvalue ` set ns - set objectPrototypeKeys)"
proof -
  have ok: "(\<forall>k i. shapes (new_ShapesGraph cx) k = Some i \<longrightarrow>
                  i < length (heap (new_ShapesGraph cx)) \<and>
                  tvalue (shapeNode (heap (new_ShapesGraph cx) ! i)) = k \<and>
                  k \<notin> set objectPrototypeKeys) \<and>
            (\<forall>i < length (heap (new_ShapesGraph cx)).
               shapes (new_ShapesGraph cx) (tvalue (shapeNode (heap (new_ShapesGraph cx) ! i))) =
                 Some i)"
    by (simp add: new_ShapesGraph_empty)
  note inv = getShapes_invariant[OF ok assms]
  have a: "\<forall>k i. shapes sg' k = Some i \<longrightarrow>
            i < length (heap sg') \<and> tvalue (shapeNode (heap sg' ! i)) = k \<and>
            k \<notin> set objectPrototypeKeys"
    and b: "\<forall>i < length (heap sg'). shapes sg' (tvalue (shapeNode (heap sg' ! i))) = Some i"
    using inv by blast+
  show d: "distinct (map (tvalue \<circ> shapeNode) (heap sg'))"
    using a b by (rule one_Shape_per_key)
  show dm: "dom (shapes sg') = tvalue ` set ns - set objectPrototypeKeys"
    using inv by (simp add: new_ShapesGraph_empty)
  show s: "set (map (tvalue \<circ> shapeNode) (heap sg')) = tvalue ` set ns - set objectPrototypeKeys"
    using one_Shape_per_key(2)[OF a b] dm by simp
  have "length (heap sg') = card (set (map (tvalue \<circ> shapeNode) (heap sg')))"
    using distinct_card[OF d] by simp
  then show "length (heap sg') = card (tvalue ` set ns - set objectPrototypeKeys)"
    using s by simp
qed




lemma getShape_first_term:
  assumes "tvalue t1 = tvalue t2" and "shapes sg (tvalue t1) = None"
    and "tvalue t1 \<notin> set objectPrototypeKeys" and "getShape sg t1 = Some (Inr (r, sg'))"
  shows "\<exists>i. r = Own i \<and> getShape sg' t2 = Some (Inr (Own i, sg')) \<and>
             i < length (heap sg') \<and> shapeNode (heap sg' ! i) = t1"
  using assms(4)
proof (cases rule: getShape_cases)
  case (cached i)
  then show ?thesis using assms(2) by simp
next
  case inherited
  then show ?thesis using assms(3) by simp
next
  case (constructed s)
  have "getShape sg' t2 = Some (Inr (r, sg'))"
    using assms(1,4) by (rule getShape_same_value)
  then show ?thesis
    using constructed shapeNode_new_Shape[OF constructed(3)] by simp
qed

text \<open>
  Claim C10. The claim is that for two terms with equal value strings, whatever their
  kinds, \<open>getShape\<close> returns the same Shape object, constructed from the term passed
  first. For a value string that is not cached and is not the name of a property of
  \<^verbatim>\<open>Object.prototype\<close>, this is what a \<open>getShape\<close> that returns does (the lemma
  \<open>getShape_first_term\<close>). But the code diverges from the claim for a value string that is
  such a name and is not cached: the read of the cache yields the inherited property,
  which is truthy, and \<open>getShape\<close> returns it for the one term and for the other; no Shape
  is constructed from either term, and nothing is cached.
\<close>

theorem C10_inherited_key_returns_no_Shape:
  assumes "tvalue t1 = tvalue t2" and "tvalue t1 \<in> set objectPrototypeKeys"
    and "shapes sg (tvalue t1) = None"
  shows "getShape sg t1 = Some (Inr (Inherited (tvalue t1), sg)) \<and>
         getShape sg t2 = Some (Inr (Inherited (tvalue t1), sg)) \<and>
         shapeOf sg (Inherited (tvalue t1)) = None"
  using assms by (simp add: getShape_def shapeOf_def)

text \<open>
  In the example, a blank node and an IRI with the value \<^verbatim>\<open>constructor\<close> are requested
  of a new ShapesGraph: both calls return the inherited property, and the ShapesGraph
  stays as it was, with no Shape.
\<close>

theorem C10_witness:
  "tvalue (BlankNode ''constructor'') = tvalue (NamedNode ''constructor'') \<and>
   getShape (new_ShapesGraph contextA) (BlankNode ''constructor'') =
     Some (Inr (Inherited ''constructor'', new_ShapesGraph contextA)) \<and>
   getShape (new_ShapesGraph contextA) (NamedNode ''constructor'') =
     Some (Inr (Inherited ''constructor'', new_ShapesGraph contextA)) \<and>
   shapeOf (new_ShapesGraph contextA) (Inherited ''constructor'') = None \<and>
   heap (new_ShapesGraph contextA) = [] \<and>
   shapes (new_ShapesGraph contextA) ''constructor'' = None"
proof -
  have v: "tvalue (BlankNode ''constructor'') = tvalue (NamedNode ''constructor'')" by simp
  have k: "tvalue (BlankNode ''constructor'') \<in> set objectPrototypeKeys" by code_simp
  have e: "shapes (new_ShapesGraph contextA) (tvalue (BlankNode ''constructor'')) = None"
    by (simp add: new_ShapesGraph_empty)
  show ?thesis
    using C10_inherited_key_returns_no_Shape[OF v k e]
    by (simp add: new_ShapesGraph_empty)
qed

text \<open>
  Claim C8. \<open>getShape\<close> returns or raises for every ShapesGraph and every node, whatever
  the references between the shapes of the shapes graph, and so does every sequence of
  requests. The Shape constructor runs three loops, each over a finite list (the
  outgoing triples of the node, and the parameters of a component in \<open>isComplete\<close> and in
  the Constraint constructor); it reads the parameter index and the shapes graph but not
  the cache, so it requests no other Shape. A request that returns extends the heap by
  at most one Shape, by none when the key was cached, keeps the Shapes that were there,
  touches only the entry of its own key and is answered from the cache when repeated. So
  when a node \<open>n\<close> refers to a node \<open>m\<close> of another value that refers back to \<open>n\<close>, the
  request for \<open>n\<close> leaves the entry of \<open>m\<close> as it was, and the request for \<open>m\<close> after it
  leaves the entry of \<open>n\<close> as it was. After any sequence of requests to a new
  ShapesGraph, no two Shape objects have nodes with the same value string.
\<close>

theorem C8_getShape_terminates_on_cycles:
  "(\<exists>res. getShape sg n = Some res)
   \<and> (\<exists>res. getShapes sg ns = Some res)
   \<and> new_Shape (sg\<lparr>heap := h, shapes := c\<rparr>) n = new_Shape sg n
   \<and> (\<forall>r sg'. getShape sg n = Some (Inr (r, sg')) \<longrightarrow>
        length (heap sg') \<le> Suc (length (heap sg)) \<and>
        take (length (heap sg)) (heap sg') = heap sg \<and>
        (shapes sg (tvalue n) \<noteq> None \<longrightarrow> sg' = sg) \<and>
        (\<forall>k. k \<noteq> tvalue n \<longrightarrow> shapes sg' k = shapes sg k) \<and>
        getShape sg' n = Some (Inr (r, sg')))
   \<and> (\<forall>m p q r sg'.
        (n, p, m) \<in> set (dshapes (ctx sg)) \<and> (m, q, n) \<in> set (dshapes (ctx sg)) \<and>
        tvalue m \<noteq> tvalue n \<and> getShape sg n = Some (Inr (r, sg')) \<longrightarrow>
          shapes sg' (tvalue m) = shapes sg (tvalue m) \<and>
          (\<exists>res. getShape sg' m = Some res) \<and>
          (\<forall>r' sg''. getShape sg' m = Some (Inr (r', sg'')) \<longrightarrow>
             shapes sg'' (tvalue n) = shapes sg' (tvalue n) \<and>
             length (heap sg'') \<le> length (heap sg) + 2))
   \<and> (\<forall>sg'. getShapes (new_ShapesGraph cx) ns = Some (Inr sg') \<longrightarrow>
         distinct (map (tvalue \<circ> shapeNode) (heap sg')))"
proof (intro conjI allI impI)
  show "\<exists>res. getShape sg n = Some res" by (rule getShape_returns)
  show "\<exists>res. getShapes sg ns = Some res" by (rule getShapes_returns)
  show "new_Shape (sg\<lparr>heap := h, shapes := c\<rparr>) n = new_Shape sg n" by (rule new_Shape_cache)
next
  fix r sg'
  assume g: "getShape sg n = Some (Inr (r, sg'))"
  show "length (heap sg') \<le> Suc (length (heap sg))" using g by (rule getShape_heap)
  show "take (length (heap sg)) (heap sg') = heap sg" using g by (rule getShape_heap)
  show "getShape sg' n = Some (Inr (r, sg'))" using g by (rule getShape_twice)
  show "sg' = sg" if "shapes sg (tvalue n) \<noteq> None" using g that by (rule getShape_heap)
  show "shapes sg' k = shapes sg k" if "k \<noteq> tvalue n" for k
    using g that by (rule getShape_other_keys)
next
  fix m p q r sg'
  assume a: "(n, p, m) \<in> set (dshapes (ctx sg)) \<and> (m, q, n) \<in> set (dshapes (ctx sg)) \<and>
        tvalue m \<noteq> tvalue n \<and> getShape sg n = Some (Inr (r, sg'))"
  then have ne: "tvalue m \<noteq> tvalue n" and g: "getShape sg n = Some (Inr (r, sg'))"
    by simp_all
  show "shapes sg' (tvalue m) = shapes sg (tvalue m)"
    using g ne by (rule getShape_other_keys)
  show "\<exists>res. getShape sg' m = Some res" by (rule getShape_returns)
  fix r' sg''
  assume g': "getShape sg' m = Some (Inr (r', sg''))"
  show "shapes sg'' (tvalue n) = shapes sg' (tvalue n)"
    using g' ne by (intro getShape_other_keys) auto
  show "length (heap sg'') \<le> length (heap sg) + 2"
    using getShape_heap(1)[OF g] getShape_heap(1)[OF g'] by simp
next
  fix sg'
  assume "getShapes (new_ShapesGraph cx) ns = Some (Inr sg')"
  then show "distinct (map (tvalue \<circ> shapeNode) (heap sg'))" by (rule getShapes_fresh)
qed

text \<open>
  In the example, \<^verbatim>\<open>ex:A\<close> and \<^verbatim>\<open>ex:B\<close> refer to each other and \<^verbatim>\<open>ex:Z\<close> to itself:
  the request for \<^verbatim>\<open>ex:A\<close> constructs one Shape and leaves \<^verbatim>\<open>ex:B\<close> out of the cache,
  and five requests for the three nodes construct three Shapes.
\<close>

theorem C8_witness:
  "(ex ''A'', sh ''node'', ex ''B'') \<in> set (dshapes contextC) \<and>
   (ex ''B'', sh ''node'', ex ''A'') \<in> set (dshapes contextC) \<and>
   (ex ''Z'', sh ''node'', ex ''Z'') \<in> set (dshapes contextC) \<and>
   (case getShape (new_ShapesGraph contextC) (ex ''A'') of
      Some (Inr (r, sg1)) \<Rightarrow>
        r = Own 0 \<and> map shapeNode (heap sg1) = [ex ''A''] \<and>
        map (map paramValue \<circ> getConstraints) (heap sg1) = [[Some (ex ''B'')]] \<and>
        shapes sg1 (tvalue (ex ''B'')) = None \<and>
        (case getShape sg1 (ex ''B'') of
           Some (Inr (r', sg2)) \<Rightarrow>
             r' = Own 1 \<and> map shapeNode (heap sg2) = [ex ''A'', ex ''B''] \<and>
             shapes sg2 (tvalue (ex ''A'')) = Some 0
         | Some (Inl e) \<Rightarrow> False
         | None \<Rightarrow> False)
    | Some (Inl e) \<Rightarrow> False
    | None \<Rightarrow> False) \<and>
   (case getShapes (new_ShapesGraph contextC) [ex ''A'', ex ''B'', ex ''Z'', ex ''A'', ex ''Z''] of
      Some (Inr sg') \<Rightarrow>
        map shapeNode (heap sg') = [ex ''A'', ex ''B'', ex ''Z''] \<and>
        distinct (map (tvalue \<circ> shapeNode) (heap sg'))
    | Some (Inl e) \<Rightarrow> False
    | None \<Rightarrow> False)"
proof -
  let ?sg = "new_ShapesGraph contextC"
  let ?ns = "[ex ''A'', ex ''B'', ex ''Z'', ex ''A'', ex ''Z'']"
  note t = C8_getShape_terminates_on_cycles[where sg = ?sg and n = "ex ''A''" and cx = contextC
      and ns = ?ns]
  have cx: "ctx ?sg = contextC" by (rule ctx_new_ShapesGraph)
  have c: "(ex ''A'', sh ''node'', ex ''B'') \<in> set (dshapes contextC)"
    "(ex ''B'', sh ''node'', ex ''A'') \<in> set (dshapes contextC)"
    "(ex ''Z'', sh ''node'', ex ''Z'') \<in> set (dshapes contextC)"
    by code_simp+
  have ne: "tvalue (ex ''B'') \<noteq> tvalue (ex ''A'')" by code_simp
  have e: "shapes ?sg (tvalue (ex ''B'')) = None" by (simp add: new_ShapesGraph_empty)
  have "case getShape ?sg (ex ''A'') of
          Some (Inr (r, sg1)) \<Rightarrow>
            r = Own 0 \<and> map shapeNode (heap sg1) = [ex ''A''] \<and>
            map (map paramValue \<circ> getConstraints) (heap sg1) = [[Some (ex ''B'')]] \<and>
            shapes sg1 (tvalue (ex ''A'')) = Some 0 \<and>
            (case getShape sg1 (ex ''B'') of
               Some (Inr (r', sg2)) \<Rightarrow>
                 r' = Own 1 \<and> map shapeNode (heap sg2) = [ex ''A'', ex ''B'']
             | Some (Inl e) \<Rightarrow> False | None \<Rightarrow> False)
        | Some (Inl e) \<Rightarrow> False | None \<Rightarrow> False"
    by code_simp
  then obtain p1 where p1: "getShape ?sg (ex ''A'') = Some (Inr p1)"
    and q1: "case p1 of (r, sg1) \<Rightarrow>
            r = Own 0 \<and> map shapeNode (heap sg1) = [ex ''A''] \<and>
            map (map paramValue \<circ> getConstraints) (heap sg1) = [[Some (ex ''B'')]] \<and>
            shapes sg1 (tvalue (ex ''A'')) = Some 0 \<and>
            (case getShape sg1 (ex ''B'') of
               Some (Inr (r', sg2)) \<Rightarrow>
                 r' = Own 1 \<and> map shapeNode (heap sg2) = [ex ''A'', ex ''B'']
             | Some (Inl e) \<Rightarrow> False | None \<Rightarrow> False)"
    by (rule result_cases)
  obtain r1 sg1 where pe: "p1 = (r1, sg1)" by (cases p1)
  have g: "getShape ?sg (ex ''A'') = Some (Inr (Own 0, sg1))"
    and h1: "map shapeNode (heap sg1) = [ex ''A'']"
    and k1: "map (map paramValue \<circ> getConstraints) (heap sg1) = [[Some (ex ''B'')]]"
    and s1: "shapes sg1 (tvalue (ex ''A'')) = Some 0"
    and g2: "case getShape sg1 (ex ''B'') of
               Some (Inr (r', sg2)) \<Rightarrow>
                 r' = Own 1 \<and> map shapeNode (heap sg2) = [ex ''A'', ex ''B'']
             | Some (Inl e) \<Rightarrow> False | None \<Rightarrow> False"
    using p1 q1 pe by simp_all
  from g2 obtain p2 where p2: "getShape sg1 (ex ''B'') = Some (Inr p2)"
    and q2: "case p2 of (r', sg2) \<Rightarrow>
               r' = Own 1 \<and> map shapeNode (heap sg2) = [ex ''A'', ex ''B'']"
    by (rule result_cases)
  obtain r2 sg2 where pe2: "p2 = (r2, sg2)" by (cases p2)
  have g2': "getShape sg1 (ex ''B'') = Some (Inr (Own 1, sg2))"
    and h2: "map shapeNode (heap sg2) = [ex ''A'', ex ''B'']"
    using p2 q2 pe2 by simp_all
  note cyc = t[THEN conjunct2, THEN conjunct2, THEN conjunct2, THEN conjunct2, THEN conjunct1,
      unfolded cx]
  have b: "shapes sg1 (tvalue (ex ''B'')) = shapes ?sg (tvalue (ex ''B''))"
    using cyc c(1,2) ne g by blast
  have a: "\<forall>r' sg''. getShape sg1 (ex ''B'') = Some (Inr (r', sg'')) \<longrightarrow>
             shapes sg'' (tvalue (ex ''A'')) = shapes sg1 (tvalue (ex ''A''))"
    using cyc c(1,2) ne g by blast
  have a2: "shapes sg2 (tvalue (ex ''A'')) = Some 0" using a g2' s1 by simp
  obtain sg' where s: "getShapes ?sg ?ns = Some (Inr sg')"
    and n: "map shapeNode (heap sg') = [ex ''A'', ex ''B'', ex ''Z'']"
  proof -
    have "case getShapes ?sg ?ns of
            Some (Inr sg') \<Rightarrow> map shapeNode (heap sg') = [ex ''A'', ex ''B'', ex ''Z'']
          | Some (Inl e) \<Rightarrow> False | None \<Rightarrow> False"
      by code_simp
    then show ?thesis using that by (auto split: option.splits sum.splits)
  qed
  have d: "distinct (map (tvalue \<circ> shapeNode) (heap sg'))"
    using t s by blast
  show ?thesis using c g h1 k1 b e g2' h2 a2 s n d by simp
qed

section \<open>Paths and value nodes\<close>

lemma getObject_None:
  "getObject g s p = None \<longleftrightarrow> \<not> hasSolution (match g (Some s) (Some p) None)"
  by (simp add: getObject_def getNode_def hasSolution_def split: list.splits)


text \<open>
  Claim C6. For a path term that is not an IRI, not a collection, and not a blank node
  with an \<^verbatim>\<open>rdf:first\<close>, \<^verbatim>\<open>sh:alternativePath\<close>, \<^verbatim>\<open>sh:zeroOrMorePath\<close>,
  \<^verbatim>\<open>sh:oneOrMorePath\<close>, \<^verbatim>\<open>sh:zeroOrOnePath\<close> or \<^verbatim>\<open>sh:inversePath\<close> triple,
  \<open>toRDFQueryPath\<close> throws the error "Unsupported SHACL path" for that term; it returns
  no path.
\<close>

theorem C6_unsupported_path:
  assumes "termType t \<noteq> ''NamedNode''" and "termType t \<noteq> ''Collection''"
    and "termType t = ''BlankNode'' \<longrightarrow>
           (\<forall>marker \<in> set [rdf ''first'', sh ''alternativePath'', sh ''zeroOrMorePath'',
                             sh ''oneOrMorePath'', sh ''zeroOrOnePath'', sh ''inversePath''].
              \<not> hasSolution (match (dshapes cx) (Some t) (Some marker) None))"
  shows "toRDFQueryPath (Suc k) cx t = Some (Inl (UnsupportedPath t))"
proof (cases "termType t = ''BlankNode''")
  case True
  then have "getObject (dshapes cx) t (rdf ''first'') = None"
    "getObject (dshapes cx) t (sh ''alternativePath'') = None"
    "getObject (dshapes cx) t (sh ''zeroOrMorePath'') = None"
    "getObject (dshapes cx) t (sh ''oneOrMorePath'') = None"
    "getObject (dshapes cx) t (sh ''zeroOrOnePath'') = None"
    "getObject (dshapes cx) t (sh ''inversePath'') = None"
    using assms(3) by (simp_all add: getObject_None)
  then show ?thesis using assms(1,2) True by simp
next
  case False
  then show ?thesis using assms(1,2) by simp
qed

text \<open>In the example: a literal, a blank node with no such triple, and a variable.\<close>

theorem C6_witness:
  "toRDFQueryPath 1 contextA (num ''1'') = Some (Inl (UnsupportedPath (num ''1''))) \<and>
   toRDFQueryPath 5 contextA (BlankNode ''b'') = Some (Inl (UnsupportedPath (BlankNode ''b''))) \<and>
   toRDFQueryPath 5 contextA (Variable ''v'') = Some (Inl (UnsupportedPath (Variable ''v''))) \<and>
   toRDFQueryPath 1 contextA (ex ''min'') = Some (Inr (Pred (ex ''min'')))"
proof -
  have a: "termType (num ''1'') \<noteq> ''NamedNode''" "termType (num ''1'') \<noteq> ''Collection''"
    "termType (num ''1'') \<noteq> ''BlankNode''"
    by (simp_all add: num_def)
  have b: "termType (BlankNode ''b'') \<noteq> ''NamedNode''" "termType (BlankNode ''b'') \<noteq> ''Collection''"
    by simp_all
  have b3: "\<forall>marker \<in> set [rdf ''first'', sh ''alternativePath'', sh ''zeroOrMorePath'',
                             sh ''oneOrMorePath'', sh ''zeroOrOnePath'', sh ''inversePath''].
              \<not> hasSolution (match (dshapes contextA) (Some (BlankNode ''b'')) (Some marker) None)"
    by code_simp
  have c: "termType (Variable ''v'') \<noteq> ''NamedNode''" "termType (Variable ''v'') \<noteq> ''Collection''"
    "termType (Variable ''v'') \<noteq> ''BlankNode''"
    by simp_all
  have d: "toRDFQueryPath 1 contextA (ex ''min'') = Some (Inr (Pred (ex ''min'')))"
    by code_simp
  have "toRDFQueryPath (Suc 0) contextA (num ''1'') = Some (Inl (UnsupportedPath (num ''1'')))"
    using C6_unsupported_path[of "num ''1''" contextA 0] a by blast
  moreover have "toRDFQueryPath (Suc 4) contextA (BlankNode ''b'') = Some (Inl (UnsupportedPath (BlankNode ''b'')))"
    using C6_unsupported_path[of "BlankNode ''b''" contextA 4] b b3 by blast
  moreover have "toRDFQueryPath (Suc 4) contextA (Variable ''v'') = Some (Inl (UnsupportedPath (Variable ''v'')))"
    using C6_unsupported_path[of "Variable ''v''" contextA 4] c by blast
  ultimately show ?thesis using d by (simp add: eval_nat_numeral)
qed



section \<open>Shapes with a target\<close>



lemma cacheExtends_refl: "cacheExtends sg sg"
  by (simp add: cacheExtends_def)
















section \<open>Closure paths on cyclic data graphs\<close>

lemma NodeSet_addAll_set: "set (NodeSet_addAll ns xs) = set ns \<union> set xs"
  unfolding NodeSet_addAll_def
  by (induction xs arbitrary: ns) (auto simp: NodeSet_add_def NodeSet_has_def)

lemma NodeSet_addAll_distinct: "distinct ns \<Longrightarrow> distinct (NodeSet_addAll ns xs)"
  unfolding NodeSet_addAll_def
  by (induction xs arbitrary: ns) (auto simp: NodeSet_add_def NodeSet_has_def)

lemma newNodes_set:
  "set (newNodes step visited frontier) = stepRel step `` set frontier - set visited"
  by (auto simp: newNodes_def NodeSet_addAll_set stepRel_def)

lemma newNodes_distinct: "distinct (newNodes step visited frontier)"
  by (simp add: newNodes_def NodeSet_addAll_distinct)

lemma closed_contains_reachable:
  assumes "S \<subseteq> V" and "R `` V \<subseteq> V"
  shows "R\<^sup>* `` S \<subseteq> V"
proof
  fix y assume "y \<in> R\<^sup>* `` S"
  then obtain x where x: "x \<in> S" and xy: "(x, y) \<in> R\<^sup>*" by auto
  from xy have "x \<in> V \<longrightarrow> y \<in> V"
    by (induction rule: rtrancl_induct) (use assms(2) in auto)
  then show "y \<in> V" using x assms(1) by auto
qed

lemma closure_reaches:
  fixes step :: "rdfterm \<Rightarrow> rdfterm list"
  defines "R \<equiv> stepRel step"
  assumes fin: "finite (R\<^sup>* `` S)"
  shows "distinct visited \<Longrightarrow> set frontier \<subseteq> set visited \<Longrightarrow> S \<subseteq> set visited \<Longrightarrow>
         set visited \<subseteq> R\<^sup>* `` S \<Longrightarrow> R `` (set visited - set frontier) \<subseteq> set visited \<Longrightarrow>
         \<exists>ys. closure step visited frontier = Some ys \<and> distinct ys \<and> set ys = R\<^sup>* `` S"
proof (induction "card (R\<^sup>* `` S - set visited)" arbitrary: visited frontier rule: less_induct)
  case less
  let ?new = "newNodes step visited frontier"
  have new: "set ?new = R `` set frontier - set visited"
    by (simp add: newNodes_set R_def)
  show ?case
  proof (cases "?new = []")
    case True
    then have "R `` set frontier \<subseteq> set visited" using new by auto
    then have "R `` set visited \<subseteq> set visited" using less.prems(5) by blast
    then have "R\<^sup>* `` S \<subseteq> set visited"
      using less.prems(3) by (intro closed_contains_reachable)
    then have "set visited = R\<^sup>* `` S" using less.prems(4) by auto
    moreover have "closure step visited frontier = Some visited"
      using True by (subst closure.simps) simp
    ultimately show ?thesis using less.prems(1) by simp
  next
    case False
    have sub: "set ?new \<subseteq> R\<^sup>* `` S"
    proof
      fix y assume "y \<in> set ?new"
      then obtain x where "x \<in> set frontier" "(x, y) \<in> R" using new by auto
      moreover then have "x \<in> R\<^sup>* `` S" using less.prems(2,4) by auto
      ultimately show "y \<in> R\<^sup>* `` S" by (auto intro: rtrancl_into_rtrancl)
    qed
    have disj: "set ?new \<inter> set visited = {}" using new by auto
    obtain z where z: "z \<in> set ?new" using False by (cases ?new) auto
    have "R\<^sup>* `` S - set (visited @ ?new) \<subset> R\<^sup>* `` S - set visited"
      using z sub disj by auto
    then have m: "card (R\<^sup>* `` S - set (visited @ ?new)) < card (R\<^sup>* `` S - set visited)"
      using fin by (intro psubset_card_mono) auto
    have 1: "distinct (visited @ ?new)"
      using less.prems(1) newNodes_distinct disj by auto
    have 2: "set ?new \<subseteq> set (visited @ ?new)" by simp
    have 3: "S \<subseteq> set (visited @ ?new)" using less.prems(3) by auto
    have 4: "set (visited @ ?new) \<subseteq> R\<^sup>* `` S" using less.prems(4) sub by auto
    have 5: "R `` (set (visited @ ?new) - set ?new) \<subseteq> set (visited @ ?new)"
    proof -
      have "R `` set visited \<subseteq> set visited \<union> set ?new"
        using less.prems(5) new by blast
      then show ?thesis by auto
    qed
    from less.hyps[OF m 1 2 3 4 5] obtain ys where
      "closure step (visited @ ?new) ?new = Some ys" "distinct ys" "set ys = R\<^sup>* `` S"
      by blast
    moreover have "closure step visited frontier = closure step (visited @ ?new) ?new"
      using False by (subst closure.simps) simp
    ultimately show ?thesis by simp
  qed
qed


lemma stepRel_pathStep: "stepRel (pathStep g p) = edges g p"
  by (auto simp: stepRel_def pathStep_def edges_def getNodeArray_def match_def image_iff)

lemma reachable_finite:
  assumes "finite S"
  shows "finite ((edges g p)\<^sup>* `` S)"
proof -
  have "(edges g p)\<^sup>* `` S \<subseteq> S \<union> Range (edges g p)"
    by (auto elim: rtranclE)
  moreover have "finite (edges g p)" by (simp add: edges_def)
  then have "finite (Range (edges g p))" by (rule finite_Range)
  ultimately show ?thesis using assms by (meson finite_UnI finite_subset)
qed

text \<open>
  Claim C9. On every data graph, one with a cycle through the traversed predicate
  included, the evaluation of a zero-or-more path and of a one-or-more path over a
  predicate returns: the closure loop ends. The result lists each node reachable from the
  focus node along the predicate (in zero or more steps, respectively in one or more)
  exactly once. The same holds of the closure of any sub-path whose single application
  yields nodes of a finite collection, as the nodes of a data graph are.
\<close>

theorem C9_closure_terminates:
  "(\<exists>ys. evalZeroOrMore g p n = Some ys \<and> distinct ys \<and>
          set ys = {y. (n, y) \<in> (edges g p)\<^sup>*}) \<and>
   (\<exists>ys. evalOneOrMore g p n = Some ys \<and> distinct ys \<and>
          set ys = {y. (n, y) \<in> (edges g p)\<^sup>+}) \<and>
   ((\<forall>x. set (step x) \<subseteq> set nodes) \<longrightarrow>
      (\<exists>ys. closure step [n] [n] = Some ys \<and> distinct ys \<and>
            set ys = {y. (n, y) \<in> (stepRel step)\<^sup>*}))"
proof (intro conjI impI)
  have "\<exists>ys. closure (pathStep g p) [n] [n] = Some ys \<and> distinct ys \<and>
             set ys = (stepRel (pathStep g p))\<^sup>* `` {n}"
    by (rule closure_reaches) (simp_all add: stepRel_pathStep reachable_finite)
  then show "\<exists>ys. evalZeroOrMore g p n = Some ys \<and> distinct ys \<and>
          set ys = {y. (n, y) \<in> (edges g p)\<^sup>*}"
    by (auto simp: evalZeroOrMore_def stepRel_pathStep)
next
  let ?first = "NodeSet_addAll [] (pathStep g p n)"
  have f: "set ?first = edges g p `` {n}"
    using stepRel_pathStep[of g p] by (auto simp: NodeSet_addAll_set stepRel_def)
  have d: "distinct ?first" by (simp add: NodeSet_addAll_distinct)
  have "\<exists>ys. closure (pathStep g p) ?first ?first = Some ys \<and> distinct ys \<and>
             set ys = (stepRel (pathStep g p))\<^sup>* `` set ?first"
    using d by (intro closure_reaches) (auto simp: stepRel_pathStep reachable_finite)
  moreover have "(edges g p)\<^sup>* `` (edges g p `` {n}) = {y. (n, y) \<in> (edges g p)\<^sup>+}"
    by (auto simp: trancl_unfold_left)
  ultimately show "\<exists>ys. evalOneOrMore g p n = Some ys \<and> distinct ys \<and>
          set ys = {y. (n, y) \<in> (edges g p)\<^sup>+}"
    by (simp add: evalOneOrMore_def stepRel_pathStep f)
next
  assume b: "\<forall>x. set (step x) \<subseteq> set nodes"
  have "y = n \<or> y \<in> set nodes" if "(n, y) \<in> (stepRel step)\<^sup>*" for y
    using that
  proof (cases rule: rtranclE)
    case base
    then show ?thesis by simp
  next
    case (step z)
    then have "y \<in> set (step z)" by (simp add: stepRel_def)
    then show ?thesis using b by blast
  qed
  then have "(stepRel step)\<^sup>* `` {n} \<subseteq> insert n (set nodes)"
    by auto
  then have "finite ((stepRel step)\<^sup>* `` {n})"
    by (rule finite_subset) simp
  then have "\<exists>ys. closure step [n] [n] = Some ys \<and> distinct ys \<and>
             set ys = (stepRel step)\<^sup>* `` {n}"
    by (rule closure_reaches) simp_all
  then show "\<exists>ys. closure step [n] [n] = Some ys \<and> distinct ys \<and>
            set ys = {y. (n, y) \<in> (stepRel step)\<^sup>*}"
    by auto
qed

text \<open>
  In the example the focus node \<^verbatim>\<open>ex:a\<close> lies on a cycle of three nodes: both closures
  return the three nodes once each.
\<close>

theorem C9_witness:
  "(ex ''a'', ex ''a'') \<in> (edges dataE (ex ''knows''))\<^sup>+ \<and>
   evalZeroOrMore dataE (ex ''knows'') (ex ''a'') = Some [ex ''a'', ex ''b'', ex ''c''] \<and>
   {y. (ex ''a'', y) \<in> (edges dataE (ex ''knows''))\<^sup>*} = {ex ''a'', ex ''b'', ex ''c''} \<and>
   evalOneOrMore dataE (ex ''knows'') (ex ''a'') = Some [ex ''b'', ex ''c'', ex ''a''] \<and>
   evalOneOrMore dataE (ex ''knows'') (ex ''d'') = Some [ex ''a'', ex ''b'', ex ''c''] \<and>
   {y. (ex ''d'', y) \<in> (edges dataE (ex ''knows''))\<^sup>+} = {ex ''a'', ex ''b'', ex ''c''}"
proof -
  have z: "evalZeroOrMore dataE (ex ''knows'') (ex ''a'') = Some [ex ''a'', ex ''b'', ex ''c'']"
    by code_simp
  have o: "evalOneOrMore dataE (ex ''knows'') (ex ''a'') = Some [ex ''b'', ex ''c'', ex ''a'']"
    by code_simp
  have od: "evalOneOrMore dataE (ex ''knows'') (ex ''d'') = Some [ex ''a'', ex ''b'', ex ''c'']"
    by code_simp
  have 1: "{y. (ex ''a'', y) \<in> (edges dataE (ex ''knows''))\<^sup>*} = set [ex ''a'', ex ''b'', ex ''c'']"
    using C9_closure_terminates[of dataE "ex ''knows''" "ex ''a''"] z by auto
  have 2: "{y. (ex ''a'', y) \<in> (edges dataE (ex ''knows''))\<^sup>+} = set [ex ''b'', ex ''c'', ex ''a'']"
    using C9_closure_terminates[of dataE "ex ''knows''" "ex ''a''"] o by auto
  have 3: "{y. (ex ''d'', y) \<in> (edges dataE (ex ''knows''))\<^sup>+} = set [ex ''a'', ex ''b'', ex ''c'']"
    using C9_closure_terminates[of dataE "ex ''knows''" "ex ''d''"] od by auto
  have "ex ''a'' \<in> {y. (ex ''a'', y) \<in> (edges dataE (ex ''knows''))\<^sup>+}"
    unfolding 2 by simp
  then show ?thesis using z o od 1 3 by simp
qed

end
